theory Spec2Isabelle
  imports Complex_Main "HOL-Library.Product_Lexorder"
begin

section \<open>Posthoc EMA reconstruction (\<open>scripts/recon_ema.py\<close>)\<close>

text \<open>
  The script computes with IEEE doubles. The embedding idealises them as real numbers:
  every arithmetic operation is the exact one, and a decimal literal denotes its exact
  decimal value. Exceptions of the source are values of the type \<open>error\<close>, and a
  function that can raise returns \<open>error + 'a\<close>.
\<close>

datatype error =
    ValueError \<comment> \<open>\<open>float(v)\<close> on a token that is not a number; \<open>list.index\<close> on a missing value\<close>
  | NeedTwoPreceding \<comment> \<open>"'...' must be preceded by at least two floats"\<close>
  | NeedFollowing \<comment> \<open>"'...' must be followed by at least one float"\<close>
  | EqualPreceding \<comment> \<open>"The floats preceding '...' must not be equal"\<close>
  | EmptyInterval \<comment> \<open>"'...' must correspond to a non-empty interval"\<close>
  | NotEvenlySpaced \<comment> \<open>"'...' must correspond to an evenly spaced interval"\<close>
  | OutOfRange \<comment> \<open>"Relative standard deviation must be positive and less than 0.289"\<close>
  | IndexError \<comment> \<open>indexing a list past its end\<close>
  | FileNotFound \<comment> \<open>opening a checkpoint file that does not exist\<close>
  | AssertionError \<comment> \<open>\<open>assert checkpoint.exists()\<close> on a missing \<open>latest.ckpt\<close>\<close>
  | LinAlgError \<comment> \<open>\<open>np.linalg.solve\<close> on a singular matrix\<close>
  | ShapeMismatch \<comment> \<open>arrays or tensors whose shapes do not fit\<close>

subsection \<open>\<open>parse_std_list\<close>\<close>

text \<open>\<open>s.split(',')\<close>: the pieces between the separators; never the empty list.\<close>

fun split_on :: "char \<Rightarrow> string \<Rightarrow> string list" where
  "split_on c [] = [[]]"
| "split_on c (x # xs) =
     (if x = c then [] # split_on c xs
      else (case split_on c xs of
              [] \<Rightarrow> [[x]]
            | w # ws \<Rightarrow> (x # w) # ws))"

text \<open>
  \<open>float(v)\<close>, on plain decimal notation: an optional sign, digits, an optional point
  and digits, with at least one digit. The other spellings that Python accepts (an
  exponent, surrounding blanks, underscores, \<open>inf\<close>, \<open>nan\<close>) are not modelled: the
  model answers \<open>None\<close> there, so statements about strings are made on decimal
  notation only, and the general statements are made on the parsed token list.
\<close>

definition is_digit :: "char \<Rightarrow> bool" where
  "is_digit c = (c \<in> set ''0123456789'')"

definition digit_val :: "char \<Rightarrow> nat" where
  "digit_val c = of_char c - 48"

definition digits_val :: "string \<Rightarrow> nat" where
  "digits_val ds = foldl (\<lambda>acc c. 10 * acc + digit_val c) 0 ds"

definition unsigned_float :: "string \<Rightarrow> real option" where
  "unsigned_float v =
     (let ip = takeWhile (\<lambda>c. c \<noteq> CHR ''.'') v;
          rest = dropWhile (\<lambda>c. c \<noteq> CHR ''.'') v;
          fp = (case rest of [] \<Rightarrow> [] | _ # r \<Rightarrow> r)
      in if list_all is_digit ip \<and> list_all is_digit fp \<and> ip @ fp \<noteq> []
         then Some (real (digits_val ip) + real (digits_val fp) / 10 ^ length fp)
         else None)"

definition py_float :: "string \<Rightarrow> real option" where
  "py_float v =
     (case v of
        [] \<Rightarrow> None
      | c # cs \<Rightarrow>
          if c = CHR ''-'' then map_option uminus (unsigned_float cs)
          else if c = CHR ''+'' then unsigned_float cs
          else unsigned_float v)"

text \<open>
  \<open>raw = [None if v == '...' else float(v) for v in s.split(',')]\<close>: the first token
  that is not a number raises.
\<close>

fun parse_tokens :: "string list \<Rightarrow> error + real option list" where
  "parse_tokens [] = Inr []"
| "parse_tokens (v # vs) =
     (if v = ''...'' then
        (case parse_tokens vs of
           Inl e \<Rightarrow> Inl e
         | Inr r \<Rightarrow> Inr (None # r))
      else
        (case py_float v of
           None \<Rightarrow> Inl ValueError
         | Some x \<Rightarrow>
             (case parse_tokens vs of
                Inl e \<Rightarrow> Inl e
              | Inr r \<Rightarrow> Inr (Some x # r))))"

definition raw_of :: "string \<Rightarrow> error + real option list" where
  "raw_of s = parse_tokens (split_on CHR '','' s)"

text \<open>Python's \<open>round\<close> of a float to an integer: to the nearest, a tie to the even one.\<close>

definition py_round :: "real \<Rightarrow> int" where
  "py_round x =
     (let f = \<lfloor>x\<rfloor>; d = x - of_int f
      in if d < 1 / 2 then f
         else if 1 / 2 < d then f + 1
         else if even f then f else f + 1)"

text \<open>
  The body of the loop at a \<open>'...'\<close> token at index \<open>i\<close> (lines 27 to 40): the checks in
  the order of the source, then the points the token stands for.
\<close>

definition approx_num :: "real option list \<Rightarrow> nat \<Rightarrow> real" where
  "approx_num raw i =
     (the (raw ! (i + 1)) - the (raw ! (i - 1))) / (the (raw ! (i - 1)) - the (raw ! (i - 2))) - 1"

definition expand_ellipsis :: "real option list \<Rightarrow> nat \<Rightarrow> error + real list" where
  "expand_ellipsis raw i =
     (if i < 2 \<or> raw ! (i - 2) = None \<or> raw ! (i - 1) = None then Inl NeedTwoPreceding
      else if length raw \<le> i + 1 \<or> raw ! (i + 1) = None then Inl NeedFollowing
      else if raw ! (i - 2) = raw ! (i - 1) then Inl EqualPreceding
      else
        let num = py_round (approx_num raw i)
        in if num \<le> 0 then Inl EmptyInterval
           else if 1 / 10000 < \<bar>of_int num - approx_num raw i\<bar> then Inl NotEvenlySpaced
           else Inr (map (\<lambda>j. the (raw ! (i - 1)) +
                            (the (raw ! (i - 1)) - the (raw ! (i - 2))) * (real j + 1))
                       [0..<nat num]))"

text \<open>
  \<open>for i, v in enumerate(raw)\<close>: \<open>rest\<close> is what is left of \<open>raw\<close> from index \<open>i\<close> on,
  \<open>out\<close> the list built so far.
\<close>

fun fill_loop :: "real option list \<Rightarrow> nat \<Rightarrow> real option list \<Rightarrow> real list \<Rightarrow> error + real list" where
  "fill_loop raw i [] out = Inr out"
| "fill_loop raw i (Some x # rest) out = fill_loop raw (i + 1) rest (out @ [x])"
| "fill_loop raw i (None # rest) out =
     (case expand_ellipsis raw i of
        Inl e \<Rightarrow> Inl e
      | Inr pts \<Rightarrow> fill_loop raw (i + 1) rest (out @ pts))"

definition fill_ellipses :: "real option list \<Rightarrow> error + real list" where
  "fill_ellipses raw = fill_loop raw 0 raw []"

text \<open>\<open>sorted(set(out))\<close> and the range check.\<close>

definition std_in_range :: "real \<Rightarrow> bool" where
  "std_in_range v = (0 < v \<and> v < 289 / 1000)"

definition validate :: "real list \<Rightarrow> error + real list" where
  "validate out =
     (let out' = sort (remdups out)
      in if list_all std_in_range out' then Inr out' else Inl OutOfRange)"

definition parse_raw :: "real option list \<Rightarrow> error + real list" where
  "parse_raw raw =
     (case fill_ellipses raw of
        Inl e \<Rightarrow> Inl e
      | Inr out \<Rightarrow> validate out)"

datatype std_arg = ListArg "real list" | StrArg string

definition parse_std_list :: "std_arg \<Rightarrow> error + real list" where
  "parse_std_list s =
     (case s of
        ListArg xs \<Rightarrow> Inr xs
      | StrArg str \<Rightarrow>
          (case raw_of str of
             Inl e \<Rightarrow> Inl e
           | Inr raw \<Rightarrow> parse_raw raw))"


subsection \<open>\<open>std_to_exp\<close>\<close>

text \<open>
  \<open>np.roots(p)\<close> is NumPy's. It is taken as what it computes in exact arithmetic: the
  complex roots of the polynomial whose coefficients are \<open>p\<close>, the highest power first.
  \<open>.real.max()\<close> then is the greatest real part among them.
\<close>

definition polyval :: "real list \<Rightarrow> complex \<Rightarrow> complex" where
  "polyval p z = foldl (\<lambda>acc c. acc * z + of_real c) 0 p"

definition np_roots :: "real list \<Rightarrow> complex set" where
  "np_roots p = {z. polyval p z = 0}"

text \<open>The polynomial of line 51 at a real argument.\<close>

definition cubic :: "real \<Rightarrow> real \<Rightarrow> real" where
  "cubic t x = x ^ 3 + 7 * x ^ 2 + (16 - t) * x + (12 - t)"

text \<open>The body of the list comprehension of line 51, for one \<open>t\<close>.\<close>

definition max_root :: "real \<Rightarrow> real" where
  "max_root t = Max (Re ` np_roots [1, 7, 16 - t, 12 - t])"

text \<open>
  An array is its shape and its elements in row-major order, as \<open>flatten\<close> lists them.
  \<open>std_to_exp\<close> flattens, maps and gives the result the shape of its argument.
\<close>

record ndarray =
  shape :: "nat list"
  elems :: "real list"

definition std_to_exp :: "ndarray \<Rightarrow> ndarray" where
  "std_to_exp std =
     (let tmp = map (\<lambda>x. x powi (- 2)) (elems std);
          exp = map max_root tmp
      in \<lparr>shape = shape std, elems = exp\<rparr>)"

text \<open>The same function on one number (an array of shape \<open>()\<close>).\<close>

definition std_to_exp0 :: "real \<Rightarrow> real" where
  "std_to_exp0 std = max_root (std powi (- 2))"

subsection \<open>\<open>power_function_correlation\<close>\<close>

text \<open>
  On numbers. \<open>t_ratio ** t_exp\<close> is the real power \<open>powr\<close>, which is NumPy's for a
  positive base; division by zero, which NumPy answers with \<open>inf\<close> or \<open>nan\<close>, is
  \<open>0\<close> in HOL, so the statements below keep the offsets positive.
\<close>

definition power_function_correlation :: "real \<Rightarrow> real \<Rightarrow> real \<Rightarrow> real \<Rightarrow> real" where
  "power_function_correlation a_ofs a_std b_ofs b_std =
     (let a_exp = std_to_exp0 a_std;
          b_exp = std_to_exp0 b_std;
          t_ratio = a_ofs / b_ofs;
          t_exp = (if a_ofs < b_ofs then b_exp else - a_exp);
          t_max = max a_ofs b_ofs;
          num = (a_exp + 1) * (b_exp + 1) * t_ratio powr t_exp;
          den = (a_exp + b_exp + 1) * t_max
      in num / den)"

text \<open>
  The call on a column \<open>rv(a)\<close> and a row \<open>cv(b)\<close> broadcasts to the matrix of all
  pairs: entry \<open>(i, j)\<close> is the correlation of the \<open>i\<close>-th \<open>a\<close> with the \<open>j\<close>-th \<open>b\<close>.
  A matrix is the list of its rows.
\<close>

definition correlation_matrix ::
  "real list \<Rightarrow> real list \<Rightarrow> real list \<Rightarrow> real list \<Rightarrow> real list list" where
  "correlation_matrix a_ofs a_std b_ofs b_std =
     map (\<lambda>(ao, asd). map (\<lambda>(bo, bsd). power_function_correlation ao asd bo bsd)
                          (zip b_ofs b_std))
         (zip a_ofs a_std)"

subsection \<open>\<open>solve_posthoc_coefficients\<close>\<close>

text \<open>
  \<open>np.broadcast_arrays\<close> on two one-dimensional arrays: equal lengths, or one of them
  of length one, which is repeated.
\<close>

definition broadcast_arrays :: "real list \<Rightarrow> real list \<Rightarrow> error + (real list \<times> real list)" where
  "broadcast_arrays xs ys =
     (if length xs = length ys then Inr (xs, ys)
      else if length xs = 1 then Inr (replicate (length ys) (hd xs), ys)
      else if length ys = 1 then Inr (xs, replicate (length xs) (hd ys))
      else Inl ShapeMismatch)"

text \<open>\<open>np.sum(X, axis=0)\<close> for a matrix of \<open>m\<close> columns, and \<open>X / np.sum(X, axis=0)\<close>.\<close>

definition col_sum :: "real list list \<Rightarrow> nat \<Rightarrow> real" where
  "col_sum X j = sum_list (map (\<lambda>row. row ! j) X)"

definition col_sums :: "nat \<Rightarrow> real list list \<Rightarrow> real list" where
  "col_sums m X = map (col_sum X) [0..<m]"

definition normalize_columns :: "nat \<Rightarrow> real list list \<Rightarrow> real list list" where
  "normalize_columns m X = map (\<lambda>row. map2 (/) row (col_sums m X)) X"

text \<open>
  \<open>np.linalg.solve\<close> is LAPACK's and is a parameter \<open>linalg_solve\<close> of the model: it
  answers \<open>LinAlgError\<close> or a matrix.
\<close>

definition solve_posthoc_coefficients ::
  "(real list list \<Rightarrow> real list list \<Rightarrow> error + real list list) \<Rightarrow>
   real list \<Rightarrow> real list \<Rightarrow> real list \<Rightarrow> real list \<Rightarrow> error + real list list" where
  "solve_posthoc_coefficients linalg_solve in_ofs in_std out_ofs out_std =
     (case broadcast_arrays in_ofs in_std of
        Inl e \<Rightarrow> Inl e
      | Inr (in_ofs', in_std') \<Rightarrow>
          (case broadcast_arrays out_ofs out_std of
             Inl e \<Rightarrow> Inl e
           | Inr (out_ofs', out_std') \<Rightarrow>
               let A = correlation_matrix in_ofs' in_std' in_ofs' in_std';
                   B = correlation_matrix in_ofs' in_std' out_ofs' out_std'
               in (case linalg_solve A B of
                     Inl e \<Rightarrow> Inl e
                   | Inr X \<Rightarrow> Inr (normalize_columns (length out_ofs') X))))"

text \<open>
  What \<open>np.linalg.solve A B\<close> promises of a result \<open>X\<close>: it has as many rows as \<open>A\<close>,
  the \<open>m\<close> columns of \<open>B\<close>, and \<open>A X = B\<close>.
\<close>

definition dot :: "real list \<Rightarrow> real list \<Rightarrow> real" where
  "dot u v = sum_list (map2 (*) u v)"

definition mat_vec :: "real list list \<Rightarrow> real list \<Rightarrow> real list" where
  "mat_vec A v = map (\<lambda>row. dot row v) A"

definition column :: "real list list \<Rightarrow> nat \<Rightarrow> real list" where
  "column X j = map (\<lambda>row. row ! j) X"

definition has_shape :: "nat \<Rightarrow> nat \<Rightarrow> real list list \<Rightarrow> bool" where
  "has_shape n m X = (length X = n \<and> list_all (\<lambda>row. length row = m) X)"

definition solves :: "real list list \<Rightarrow> real list list \<Rightarrow> nat \<Rightarrow> real list list \<Rightarrow> bool" where
  "solves A B m X =
     (has_shape (length A) m X \<and> list_all (\<lambda>j. mat_vec A (column X j) = column B j) [0..<m])"

definition nonsingular :: "real list list \<Rightarrow> bool" where
  "nonsingular A = (\<forall>v. length v = length A \<and> mat_vec A v = replicate (length A) 0
                         \<longrightarrow> v = replicate (length A) 0)"

subsection \<open>Checkpoints\<close>

text \<open>
  A tensor is the list of its elements, a model the list of its parameter tensors in
  the order of \<open>parameters()\<close>. Of a checkpoint file the script reads the std list of
  its configuration, the pickled step counter and the state of the EMA holder.

  Modelled from the spec: the EMA holder (\<open>model/diffusion/ema_model.py\<close> is not
  among the sources). After \<open>load_state_dict\<close>, \<open>get()\<close> answers the list of model
  instances, one per std value of the state, in the order of the std list;
  \<open>ema_models\<close> is that list.
\<close>

type_synonym tensor = "real list"

type_synonym model = "tensor list"

record payload =
  cfg_stds :: "real list"
  global_step :: int
  ema_models :: "model list"

type_synonym ckpt_record = "int \<times> real \<times> string"

text \<open>\<open>xs[i]\<close> and \<open>xs.index(x)\<close>.\<close>

definition item :: "'a list \<Rightarrow> nat \<Rightarrow> error + 'a" where
  "item xs i = (if i < length xs then Inr (xs ! i) else Inl IndexError)"

fun index_of :: "'a list \<Rightarrow> 'a \<Rightarrow> nat option" where
  "index_of [] x = None"
| "index_of (y # ys) x = (if y = x then Some 0 else map_option Suc (index_of ys x))"

subsection \<open>Paths and the file system\<close>

text \<open>
  A \<open>pathlib\<close> path is whether it is absolute and the list of its components. \<open>a / b\<close>
  is \<open>b\<close> when \<open>b\<close> is absolute, and the components of \<open>a\<close> followed by those of \<open>b\<close>
  otherwise. \<open>p.name\<close> is the last component. A file name, as a string, is the
  relative path of that one component.
\<close>

datatype path = Path (is_abs: bool) (parts: "string list")

definition path_join :: "path \<Rightarrow> path \<Rightarrow> path" where
  "path_join a b = (if is_abs b then b else Path (is_abs a) (parts a @ parts b))"

definition path_name :: "path \<Rightarrow> string" where
  "path_name p = (if parts p = [] then [] else last (parts p))"

definition name_path :: "string \<Rightarrow> path" where
  "name_path name = Path False [name]"

text \<open>
  \<open>dir.iterdir()\<close> yields, for each entry of the directory, the path of the directory
  joined with the entry's name; \<open>names\<close> lists the entries in the order of the
  iteration. The file system is a map \<open>store\<close> from the path that is opened to what
  loading the file there yields; \<open>None\<close> when no file is there.
\<close>

definition iterdir :: "path \<Rightarrow> string list \<Rightarrow> path list" where
  "iterdir dir names = map (\<lambda>name. path_join dir (name_path name)) names"

subsection \<open>Discovery of the checkpoints in \<open>main\<close>\<close>

text \<open>
  \<open>re.match(r"epoch_(\d+).ckpt", name)\<close>: the name begins with \<open>epoch_\<close>, then one
  digit or more, then any one character but a newline, then \<open>ckpt\<close>; what follows is
  free. The digits that \<open>\d+\<close> takes are any non-empty prefix of the run of digits.
\<close>

definition epoch_match :: "string \<Rightarrow> bool" where
  "epoch_match name =
     (take 6 name = ''epoch_'' \<and>
      (let rest = drop 6 name;
           d = length (takeWhile is_digit rest)
       in list_ex (\<lambda>k. (case drop k rest of
                          [] \<Rightarrow> False
                        | c # after \<Rightarrow> c \<noteq> CHR 0x0A \<and> take 4 after = ''ckpt''))
                  [1..<d + 1]))"

text \<open>
  Lines 179 to 182 and 186 to 189: the two records of a loaded checkpoint, from the
  first two entries of its own std list. \<open>cfg.ema.stds[0]\<close> and \<open>cfg.ema.stds[1]\<close>
  raise on a list that is too short.
\<close>

definition checkpoint_records :: "payload \<Rightarrow> string \<Rightarrow> error + ckpt_record list" where
  "checkpoint_records pl name =
     (case item (cfg_stds pl) 0 of
        Inl e \<Rightarrow> Inl e
      | Inr s0 \<Rightarrow>
          (case item (cfg_stds pl) 1 of
             Inl e \<Rightarrow> Inl e
           | Inr s1 \<Rightarrow> Inr [(global_step pl, s0, name), (global_step pl, s1, name)]))"

text \<open>
  The loop of lines 170 to 183 over \<open>checkpoint_dir.iterdir()\<close>. The pattern is
  matched against \<open>file.name\<close>; the file that is opened is \<open>checkpoint_dir / file\<close>,
  where \<open>file\<close> already is a path that begins with the directory.
\<close>

fun discover :: "(path \<Rightarrow> payload option) \<Rightarrow> path \<Rightarrow> path list \<Rightarrow> ckpt_record list
    \<Rightarrow> error + ckpt_record list" where
  "discover store checkpoint_dir [] params = Inr params"
| "discover store checkpoint_dir (file # files) params =
     (if \<not> epoch_match (path_name file) then discover store checkpoint_dir files params
      else
        (case store (path_join checkpoint_dir file) of
           None \<Rightarrow> Inl FileNotFound
         | Some pl \<Rightarrow>
             (case checkpoint_records pl (path_name file) of
                Inl e \<Rightarrow> Inl e
              | Inr rs \<Rightarrow> discover store checkpoint_dir files (params @ rs))))"

text \<open>
  Lines 154 to 189: \<open>checkpoint_dir\<close> is \<open>Path(workspace_dir) / "checkpoints"\<close>;
  \<open>latest.ckpt\<close> must exist and is loaded first, the directory is scanned, and the
  records of the latest checkpoint are added last. The step of the workspace is the one
  the latest checkpoint restored. \<open>names\<close> lists the entries of the checkpoint
  directory.
\<close>

definition main_params :: "(path \<Rightarrow> payload option) \<Rightarrow> path \<Rightarrow> string list
    \<Rightarrow> error + ckpt_record list" where
  "main_params store workspace_dir names =
     (let checkpoint_dir = path_join workspace_dir (name_path ''checkpoints'');
          checkpoint = path_join checkpoint_dir (name_path ''latest.ckpt'')
      in (case store checkpoint of
            None \<Rightarrow> Inl AssertionError
          | Some latest \<Rightarrow>
              (case discover store checkpoint_dir (iterdir checkpoint_dir names) [] of
                 Inl e \<Rightarrow> Inl e
               | Inr params \<Rightarrow>
                   (case checkpoint_records latest ''latest.ckpt'' of
                      Inl e \<Rightarrow> Inl e
                    | Inr rs \<Rightarrow> Inr (params @ rs)))))"

subsection \<open>\<open>EMARunner\<close>\<close>

text \<open>\<open>sorted(params, key=lambda x: (x[0], x[1]))\<close>: a stable sort on step, then std.\<close>

definition sorted_params :: "ckpt_record list \<Rightarrow> ckpt_record list" where
  "sorted_params params = sort_key (\<lambda>(step, std, file). (step, std)) params"

text \<open>
  \<open>for p, ema_p in zip(out.parameters(), ema.parameters()): p += ema_p * c\<close>. The two
  tensors must have the same number of elements (shapes that differ and still broadcast
  are not modelled); \<open>zip\<close> stops at the shorter list and leaves the other parameters
  of \<open>out\<close> as they are.
\<close>

fun accumulate :: "model \<Rightarrow> model \<Rightarrow> real \<Rightarrow> error + model" where
  "accumulate [] ema c = Inr []"
| "accumulate (p # ps) [] c = Inr (p # ps)"
| "accumulate (p # ps) (q # qs) c =
     (if length p \<noteq> length q then Inl ShapeMismatch
      else
        (case accumulate ps qs c of
           Inl e \<Rightarrow> Inl e
         | Inr r \<Rightarrow> Inr (map2 (\<lambda>x y. x + y * c) p q # r)))"

text \<open>
  Lines 108 to 119: of the record's file, opened as \<open>self.checkpoint_dir / file\<close> with
  \<open>file\<close> the name in the record, the EMA variant whose std is the record's.
  \<open>cfg.ema.stds.index(std_in)\<close> raises when the std is not in the list.
\<close>

definition load_variant :: "(path \<Rightarrow> payload option) \<Rightarrow> path \<Rightarrow> ckpt_record \<Rightarrow> error + model" where
  "load_variant store checkpoint_dir r =
     (case r of (step, std_in, file) \<Rightarrow>
        (case store (path_join checkpoint_dir (name_path file)) of
           None \<Rightarrow> Inl FileNotFound
         | Some pl \<Rightarrow>
             (case index_of (cfg_stds pl) std_in of
                None \<Rightarrow> Inl ValueError
              | Some idx \<Rightarrow> item (ema_models pl) idx)))"

text \<open>
  The loop of lines 107 to 125 over \<open>zip(self.sorted_params, coef)\<close>: each row of
  \<open>coef\<close> holds the one coefficient of its source.
\<close>

fun recon_loop :: "(path \<Rightarrow> payload option) \<Rightarrow> path \<Rightarrow> ckpt_record list \<Rightarrow> real list list
    \<Rightarrow> model \<Rightarrow> error + model" where
  "recon_loop store checkpoint_dir [] coef out = Inr out"
| "recon_loop store checkpoint_dir (r # rs) [] out = Inr out"
| "recon_loop store checkpoint_dir (r # rs) (c # cs) out =
     (case load_variant store checkpoint_dir r of
        Inl e \<Rightarrow> Inl e
      | Inr ema \<Rightarrow>
          (case c of
             [c0] \<Rightarrow>
               (case accumulate out ema c0 of
                  Inl e \<Rightarrow> Inl e
                | Inr out' \<Rightarrow> recon_loop store checkpoint_dir rs cs out')
           | _ \<Rightarrow> Inl ShapeMismatch))"

text \<open>\<open>out = copy.deepcopy(ema)\<close> and \<open>p.zero_()\<close> for each parameter.\<close>

definition zero_model :: "model \<Rightarrow> model" where
  "zero_model m = map (map (\<lambda>_. 0)) m"

text \<open>
  \<open>EMARunner.__call__\<close> down to line 131, the model handed to the rollouts: \<open>records\<close>
  is \<open>self.sorted_params\<close>, \<open>checkpoint_dir\<close> is \<open>self.checkpoint_dir\<close>, \<open>latest\<close> the
  step of \<open>self.latest\<close>, \<open>live\<close> what
  \<open>self.workspace.ema.get()\<close> answers on entry. The new state of the holder is two
  copies of \<open>out\<close>, so the policy \<open>get()[0]\<close> has the parameters of \<open>out\<close>.
\<close>

definition reconstruct ::
  "(real list list \<Rightarrow> real list list \<Rightarrow> error + real list list) \<Rightarrow>
   (path \<Rightarrow> payload option) \<Rightarrow> path \<Rightarrow> ckpt_record list \<Rightarrow> int \<Rightarrow> model list \<Rightarrow> real
   \<Rightarrow> error + model" where
  "reconstruct linalg_solve store checkpoint_dir records latest live std =
     (let steps = map (\<lambda>(step, std_in, file). real_of_int step) records;
          in_stds = map (\<lambda>(step, std_in, file). std_in) records
      in (case solve_posthoc_coefficients linalg_solve steps in_stds [real_of_int latest] [std] of
            Inl e \<Rightarrow> Inl e
          | Inr coef \<Rightarrow>
              (case item live 0 of
                 Inl e \<Rightarrow> Inl e
               | Inr ema \<Rightarrow> recon_loop store checkpoint_dir records coef (zero_model ema))))"

section \<open>Properties of \<open>parse_std_list\<close>\<close>

subsection \<open>The loop over the tokens\<close>

lemma expand_ellipsis_error_kind:
  "expand_ellipsis raw i = Inl e \<Longrightarrow>
     e \<in> {NeedTwoPreceding, NeedFollowing, EqualPreceding, EmptyInterval, NotEvenlySpaced}"
  by (auto simp: expand_ellipsis_def Let_def split: if_splits)

lemma fill_loop_first_error:
  "k < length rest \<Longrightarrow> rest ! k = None \<Longrightarrow> expand_ellipsis raw (i + k) = Inl e \<Longrightarrow>
   (\<forall>j<k. rest ! j = None \<longrightarrow> (\<exists>pts. expand_ellipsis raw (i + j) = Inr pts)) \<Longrightarrow>
   fill_loop raw i rest out = Inl e"
proof (induction raw i rest out arbitrary: k rule: fill_loop.induct)
  case (1 raw i out)
  then show ?case by simp
next
  case (2 raw i x rest out)
  from 2(2,3) obtain k' where k: "k = Suc k'" by (cases k) auto
  have "fill_loop raw (i + 1) rest (out @ [x]) = Inl e"
  proof (rule 2(1))
    show "k' < length rest" using 2(2) k by simp
    show "rest ! k' = None" using 2(3) k by simp
    show "expand_ellipsis raw (i + 1 + k') = Inl e" using 2(4) k by simp
    show "\<forall>j<k'. rest ! j = None \<longrightarrow> (\<exists>pts. expand_ellipsis raw (i + 1 + j) = Inr pts)"
    proof (intro allI impI)
      fix j assume "j < k'" "rest ! j = None"
      then have "Suc j < k" "(Some x # rest) ! Suc j = None" using k by simp_all
      with 2(5) have "\<exists>pts. expand_ellipsis raw (i + Suc j) = Inr pts" by blast
      then show "\<exists>pts. expand_ellipsis raw (i + 1 + j) = Inr pts" by simp
    qed
  qed
  then show ?case by simp
next
  case (3 raw i rest out)
  show ?case
  proof (cases k)
    case 0
    then show ?thesis using 3(4) by simp
  next
    case (Suc k')
    from 3(5) Suc obtain pts where pts: "expand_ellipsis raw i = Inr pts"
      by (metis add.right_neutral nth_Cons_0 zero_less_Suc)
    have "fill_loop raw (i + 1) rest (out @ pts) = Inl e"
    proof (rule 3(1)[OF pts])
      show "k' < length rest" using 3(2) Suc by simp
      show "rest ! k' = None" using 3(3) Suc by simp
      show "expand_ellipsis raw (i + 1 + k') = Inl e" using 3(4) Suc by simp
      show "\<forall>j<k'. rest ! j = None \<longrightarrow> (\<exists>pts. expand_ellipsis raw (i + 1 + j) = Inr pts)"
      proof (intro allI impI)
        fix j assume "j < k'" "rest ! j = None"
        then have "Suc j < k" "(None # rest) ! Suc j = None" using Suc by simp_all
        with 3(5) have "\<exists>pts. expand_ellipsis raw (i + Suc j) = Inr pts" by blast
        then show "\<exists>pts. expand_ellipsis raw (i + 1 + j) = Inr pts" by simp
      qed
    qed
    then show ?thesis using pts by simp
  qed
qed

lemma fill_loop_ok_all:
  "fill_loop raw i rest out = Inr r \<Longrightarrow> k < length rest \<Longrightarrow> rest ! k = None \<Longrightarrow>
   \<exists>pts. expand_ellipsis raw (i + k) = Inr pts"
proof (induction raw i rest out arbitrary: k rule: fill_loop.induct)
  case (1 raw i out)
  then show ?case by simp
next
  case (2 raw i x rest out)
  from 2(3,4) obtain k' where k: "k = Suc k'" by (cases k) auto
  have "\<exists>pts. expand_ellipsis raw (i + 1 + k') = Inr pts"
    by (rule 2(1)) (use 2 k in simp_all)
  then show ?case using k by simp
next
  case (3 raw i rest out)
  from 3(2) obtain pts where pts: "expand_ellipsis raw i = Inr pts"
    by (cases "expand_ellipsis raw i") simp_all
  show ?case
  proof (cases k)
    case 0
    then show ?thesis using pts by simp
  next
    case (Suc k')
    have "\<exists>pts. expand_ellipsis raw (i + 1 + k') = Inr pts"
      by (rule 3(1)[OF pts]) (use 3 Suc pts in simp_all)
    then show ?thesis using Suc by simp
  qed
qed

lemma fill_loop_error_kind:
  "fill_loop raw i rest out = Inl e \<Longrightarrow>
     e \<in> {NeedTwoPreceding, NeedFollowing, EqualPreceding, EmptyInterval, NotEvenlySpaced}"
proof (induction raw i rest out rule: fill_loop.induct)
  case (3 raw i rest out)
  then show ?case
    by (cases "expand_ellipsis raw i") (use expand_ellipsis_error_kind in auto)
qed simp_all

lemma parse_std_list_raw:
  "raw_of s = Inr raw \<Longrightarrow> parse_std_list (StrArg s) = parse_raw raw"
  by (simp add: parse_std_list_def)

lemma validate_out_of_range:
  "v \<in> set out \<Longrightarrow> \<not> std_in_range v \<Longrightarrow> validate out = Inl OutOfRange"
  by (auto simp: validate_def Let_def list_all_iff)

lemma validate_in_range:
  "\<forall>v\<in>set out. std_in_range v \<Longrightarrow> validate out = Inr (sort (remdups out))"
  by (auto simp: validate_def Let_def list_all_iff)

lemma py_round_of_nat: "py_round (real n) = int n"
  by (simp add: py_round_def Let_def)

lemma progression_list:
  "[a, b] @ map (\<lambda>j. b + (b - a) * (real j + 1)) [0..<n] @ [b + (real n + 1) * (b - a)]
     = map (\<lambda>k. a + real k * (b - a)) [0..<n + 3]" (is "?l = ?r")
proof (rule nth_equalityI)
  show "length ?l = length ?r" by simp
next
  fix i assume "i < length ?l"
  then have i: "i < n + 3" by simp
  consider "i = 0" | "i = 1" | "2 \<le> i" "i < n + 2" | "i = n + 2" using i by linarith
  then show "?l ! i = ?r ! i"
  proof cases
    case 1 then show ?thesis by simp
  next
    case 2 then show ?thesis by simp
  next
    case 3
    then obtain j where j: "i = j + 2" "j < n" by (metis add.commute le_Suc_ex less_diff_conv2 add_diff_cancel_left' nat_add_left_cancel_less)
    have "?l ! i = (map (\<lambda>j. b + (b - a) * (real j + 1)) [0..<n] @ [b + (real n + 1) * (b - a)]) ! j"
      using j by (simp add: numeral_2_eq_2)
    also have "\<dots> = b + (b - a) * (real j + 1)" using j by (simp add: nth_append)
    also have "\<dots> = ?r ! i" using j i by (simp add: algebra_simps del: upt_Suc)
    finally show ?thesis .
  next
    case 4
    have "?l ! i = (map (\<lambda>j. b + (b - a) * (real j + 1)) [0..<n] @ [b + (real n + 1) * (b - a)]) ! n"
      using 4 by (simp add: numeral_2_eq_2)
    also have "\<dots> = b + (real n + 1) * (b - a)" by (simp add: nth_append)
    also have "\<dots> = ?r ! i" using 4 by (simp add: algebra_simps nth_append del: upt_Suc)
    finally show ?thesis .
  qed
qed

lemma progression_sorted:
  assumes "(a::real) < b"
  shows "sort (remdups (map (\<lambda>k. a + real k * (b - a)) [0..<m])) = map (\<lambda>k. a + real k * (b - a)) [0..<m]"
proof -
  let ?f = "\<lambda>k. a + real k * (b - a)"
  have inj: "inj ?f" using assms by (auto simp: inj_on_def)
  have "distinct (map ?f [0..<m])"
    by (simp add: distinct_map inj_on_subset[OF inj])
  moreover have "sorted (map ?f [0..<m])"
    unfolding sorted_map
    by (rule sorted_wrt_mono_rel[of _ "(<)"]) (use assms in \<open>auto simp: mult_right_mono\<close>)
  ultimately show ?thesis by (simp add: distinct_remdups_id sorted_sort_id)
qed

lemmas float_defs = raw_of_def py_float_def unsigned_float_def is_digit_def digits_val_def digit_val_def

lemma raw_of_example: "raw_of ''1.0,2.0,...,5.0'' = Inr [Some 1, Some 2, None, Some 5]"
  by (simp add: float_defs)

lemma raw_of_in_range:
  "raw_of ''0.05,0.10,...,0.25'' = Inr [Some (1 / 20), Some (1 / 10), None, Some (1 / 4)]"
  by (simp add: float_defs)

subsection \<open>Validation errors\<close>

text \<open>
  Claim C8. Let \<open>raw\<close> be the token list of the string \<open>s\<close> and let index \<open>i\<close> hold a
  \<open>'...'\<close> token. If that token has no two floats before it, or no float after it, or
  the two floats before it are equal, or the computed number of points is not positive,
  or is farther than \<open>1e-4\<close> from the exact quotient, then \<open>parse_std_list\<close> returns no
  value: it raises one of the five validation errors. When the tokens before \<open>i\<close> raise
  nothing, the error is the one of the first check that fails, in the order of the
  source. When all tokens expand and one of the resulting values lies outside
  \<open>(0, 0.289)\<close>, the range error is raised.
\<close>

theorem parse_std_list_raises:
  assumes raw: "raw_of s = Inr raw"
  shows
    "(\<forall>i<length raw. raw ! i = None \<longrightarrow>
        (i < 2 \<or> raw ! (i - 2) = None \<or> raw ! (i - 1) = None
         \<or> length raw \<le> i + 1 \<or> raw ! (i + 1) = None
         \<or> raw ! (i - 2) = raw ! (i - 1)
         \<or> py_round (approx_num raw i) \<le> 0
         \<or> 1 / 10000 < \<bar>of_int (py_round (approx_num raw i)) - approx_num raw i\<bar>) \<longrightarrow>
        (\<exists>e. parse_std_list (StrArg s) = Inl e \<and>
             e \<in> {NeedTwoPreceding, NeedFollowing, EqualPreceding, EmptyInterval, NotEvenlySpaced}))
     \<and> (\<forall>i<length raw. raw ! i = None \<longrightarrow>
          (\<forall>j<i. raw ! j = None \<longrightarrow> \<not> isl (expand_ellipsis raw j)) \<longrightarrow>
          (if i < 2 \<or> raw ! (i - 2) = None \<or> raw ! (i - 1) = None
             then parse_std_list (StrArg s) = Inl NeedTwoPreceding
           else if length raw \<le> i + 1 \<or> raw ! (i + 1) = None
             then parse_std_list (StrArg s) = Inl NeedFollowing
           else if raw ! (i - 2) = raw ! (i - 1)
             then parse_std_list (StrArg s) = Inl EqualPreceding
           else if py_round (approx_num raw i) \<le> 0
             then parse_std_list (StrArg s) = Inl EmptyInterval
           else 1 / 10000 < \<bar>of_int (py_round (approx_num raw i)) - approx_num raw i\<bar> \<longrightarrow>
                parse_std_list (StrArg s) = Inl NotEvenlySpaced))
     \<and> (\<forall>out. fill_ellipses raw = Inr out \<longrightarrow> (\<exists>v\<in>set out. \<not> (0 < v \<and> v < 289 / 1000)) \<longrightarrow>
          parse_std_list (StrArg s) = Inl OutOfRange)"
proof (intro conjI allI impI)
  fix i
  assume i: "i < length raw" "raw ! i = None"
    and bad: "i < 2 \<or> raw ! (i - 2) = None \<or> raw ! (i - 1) = None
         \<or> length raw \<le> i + 1 \<or> raw ! (i + 1) = None
         \<or> raw ! (i - 2) = raw ! (i - 1)
         \<or> py_round (approx_num raw i) \<le> 0
         \<or> 1 / 10000 < \<bar>of_int (py_round (approx_num raw i)) - approx_num raw i\<bar>"
  from bad have "isl (expand_ellipsis raw i)"
    by (auto simp: expand_ellipsis_def Let_def)
  then have no: "\<nexists>pts. expand_ellipsis raw i = Inr pts" by auto
  obtain e where e: "fill_ellipses raw = Inl e"
  proof (cases "fill_ellipses raw")
    case (Inr r)
    then have "\<exists>pts. expand_ellipsis raw (0 + i) = Inr pts"
      using fill_loop_ok_all[of raw 0 raw "[]" r i] i by (simp add: fill_ellipses_def)
    with no show ?thesis by simp
  qed blast
  then have "e \<in> {NeedTwoPreceding, NeedFollowing, EqualPreceding, EmptyInterval, NotEvenlySpaced}"
    using fill_loop_error_kind[of raw 0 raw "[]" e] by (simp add: fill_ellipses_def)
  moreover have "parse_std_list (StrArg s) = Inl e"
    using e by (simp add: parse_std_list_raw[OF raw] parse_raw_def)
  ultimately show "\<exists>e. parse_std_list (StrArg s) = Inl e \<and>
             e \<in> {NeedTwoPreceding, NeedFollowing, EqualPreceding, EmptyInterval, NotEvenlySpaced}"
    by blast
next
  fix i
  assume i: "i < length raw" "raw ! i = None"
    and first: "\<forall>j<i. raw ! j = None \<longrightarrow> \<not> isl (expand_ellipsis raw j)"
  have first': "\<forall>j<i. raw ! j = None \<longrightarrow> (\<exists>pts. expand_ellipsis raw (0 + j) = Inr pts)"
  proof (intro allI impI)
    fix j assume "j < i" "raw ! j = None"
    with first have "\<not> isl (expand_ellipsis raw j)" by blast
    then show "\<exists>pts. expand_ellipsis raw (0 + j) = Inr pts"
      by (cases "expand_ellipsis raw j") simp_all
  qed
  have step: "parse_std_list (StrArg s) = Inl e" if "expand_ellipsis raw i = Inl e" for e
  proof -
    have "fill_loop raw 0 raw [] = Inl e"
      by (rule fill_loop_first_error[of i raw raw 0 e]) (use i that first' in simp_all)
    then show ?thesis
      by (simp add: parse_std_list_raw[OF raw] parse_raw_def fill_ellipses_def)
  qed
  show "if i < 2 \<or> raw ! (i - 2) = None \<or> raw ! (i - 1) = None
             then parse_std_list (StrArg s) = Inl NeedTwoPreceding
           else if length raw \<le> i + 1 \<or> raw ! (i + 1) = None
             then parse_std_list (StrArg s) = Inl NeedFollowing
           else if raw ! (i - 2) = raw ! (i - 1)
             then parse_std_list (StrArg s) = Inl EqualPreceding
           else if py_round (approx_num raw i) \<le> 0
             then parse_std_list (StrArg s) = Inl EmptyInterval
           else 1 / 10000 < \<bar>of_int (py_round (approx_num raw i)) - approx_num raw i\<bar> \<longrightarrow>
                parse_std_list (StrArg s) = Inl NotEvenlySpaced"
    by (auto simp: expand_ellipsis_def Let_def intro!: step)
next
  fix out
  assume "fill_ellipses raw = Inr out" "\<exists>v\<in>set out. \<not> (0 < v \<and> v < 289 / 1000)"
  then show "parse_std_list (StrArg s) = Inl OutOfRange"
    using validate_out_of_range[of _ out]
    by (auto simp: parse_std_list_raw[OF raw] parse_raw_def std_in_range_def)
qed

theorem parse_std_list_raises_witness:
  "parse_std_list (StrArg ''0.1,...,0.2'') = Inl NeedTwoPreceding
   \<and> parse_std_list (StrArg ''0.1,0.2,...'') = Inl NeedFollowing
   \<and> parse_std_list (StrArg ''1.0,1.0,...,2.0'') = Inl EqualPreceding
   \<and> parse_std_list (StrArg ''0.2,0.1,...,0.3'') = Inl EmptyInterval
   \<and> parse_std_list (StrArg ''1.0,2.0,...,4.5'') = Inl NotEvenlySpaced
   \<and> parse_std_list (StrArg ''0.1,0.2,0.3'') = Inl OutOfRange"
proof -
  have r1: "raw_of ''0.1,...,0.2'' = Inr [Some (1 / 10), None, Some (1 / 5)]"
    by (simp add: float_defs)
  have r2: "raw_of ''0.1,0.2,...'' = Inr [Some (1 / 10), Some (1 / 5), None]"
    by (simp add: float_defs)
  have r3: "raw_of ''1.0,1.0,...,2.0'' = Inr [Some 1, Some 1, None, Some 2]"
    by (simp add: float_defs)
  have r4: "raw_of ''0.2,0.1,...,0.3'' = Inr [Some (1 / 5), Some (1 / 10), None, Some (3 / 10)]"
    by (simp add: float_defs)
  have r5: "raw_of ''1.0,2.0,...,4.5'' = Inr [Some 1, Some 2, None, Some (9 / 2)]"
    by (simp add: float_defs)
  have r6: "raw_of ''0.1,0.2,0.3'' = Inr [Some (1 / 10), Some (1 / 5), Some (3 / 10)]"
    by (simp add: float_defs)
  have f6: "fill_ellipses [Some (1 / 10), Some (1 / 5), Some (3 / 10)] = Inr [1 / 10, 1 / 5, 3 / 10]"
    by (simp add: fill_ellipses_def)
  have two: "j < 2 \<longleftrightarrow> j = 0 \<or> j = Suc 0" for j :: nat by auto
  have one: "j < Suc 0 \<longleftrightarrow> j = 0" for j :: nat by auto
  have a1: "parse_std_list (StrArg ''0.1,...,0.2'') = Inl NeedTwoPreceding"
    using parse_std_list_raises[OF r1, THEN conjunct2, THEN conjunct1, THEN spec, of 1]
    by (simp add: one)
  have a2: "parse_std_list (StrArg ''0.1,0.2,...'') = Inl NeedFollowing"
    using parse_std_list_raises[OF r2, THEN conjunct2, THEN conjunct1, THEN spec, of 2]
    by (simp add: two all_conj_distrib)
  have a3: "parse_std_list (StrArg ''1.0,1.0,...,2.0'') = Inl EqualPreceding"
    using parse_std_list_raises[OF r3, THEN conjunct2, THEN conjunct1, THEN spec, of 2]
    by (simp add: two all_conj_distrib)
  have a4: "parse_std_list (StrArg ''0.2,0.1,...,0.3'') = Inl EmptyInterval"
    using parse_std_list_raises[OF r4, THEN conjunct2, THEN conjunct1, THEN spec, of 2]
    by (simp add: two all_conj_distrib approx_num_def py_round_def Let_def)
  have a5: "parse_std_list (StrArg ''1.0,2.0,...,4.5'') = Inl NotEvenlySpaced"
    using parse_std_list_raises[OF r5, THEN conjunct2, THEN conjunct1, THEN spec, of 2]
    by (simp add: two all_conj_distrib approx_num_def py_round_def Let_def)
  have ex: "\<exists>v\<in>set [1 / 10, 1 / 5, 3 / 10 :: real]. \<not> (0 < v \<and> v < 289 / 1000)"
    by (intro bexI[of _ "3 / 10"]) simp_all
  have a6: "parse_std_list (StrArg ''0.1,0.2,0.3'') = Inl OutOfRange"
    using parse_std_list_raises[OF r6, THEN conjunct2, THEN conjunct2, THEN spec,
        of "[1 / 10, 1 / 5, 3 / 10]", THEN mp, OF f6, THEN mp, OF ex] .
  show ?thesis using a1 a2 a3 a4 a5 a6 by simp
qed

subsection \<open>Expansion of an arithmetic progression\<close>

text \<open>
  Claim C6, as the source has it. The tokens \<open>a, b, ..., c\<close> with \<open>a < b\<close> and
  \<open>c = b + (n + 1) (b - a)\<close> for a positive whole \<open>n\<close> expand to the \<open>n + 3\<close> points
  \<open>a, b, b + (b - a), \<dots>, c\<close> of the progression; \<open>parse_std_list\<close> returns them when
  they lie in \<open>(0, 0.289)\<close> and raises the range error otherwise. For
  \<open>"1.0,2.0,...,5.0"\<close> the expansion is \<open>1, 2, 3, 4, 5\<close> and the range check rejects it.
\<close>

theorem parse_std_list_progression:
  assumes raw: "raw_of s = Inr [Some a, Some b, None, Some c]"
    and ab: "a < b" and n: "0 < n" and c: "c = b + (real n + 1) * (b - a)"
  shows "fill_ellipses [Some a, Some b, None, Some c]
           = Inr (map (\<lambda>k. a + real k * (b - a)) [0..<n + 3])
       \<and> parse_std_list (StrArg s)
           = (if 0 < a \<and> c < 289 / 1000
              then Inr (map (\<lambda>k. a + real k * (b - a)) [0..<n + 3])
              else Inl OutOfRange)"
proof -
  let ?raw = "[Some a, Some b, None, Some c]"
  let ?f = "\<lambda>k. a + real k * (b - a)"
  have ap: "approx_num ?raw 2 = real n"
    using ab c by (simp add: approx_num_def field_simps)
  have ex: "expand_ellipsis ?raw 2 = Inr (map (\<lambda>j. b + (b - a) * (real j + 1)) [0..<n])"
    using ab n by (simp add: expand_ellipsis_def ap py_round_of_nat Let_def)
  have "fill_ellipses ?raw
          = Inr ([a, b] @ map (\<lambda>j. b + (b - a) * (real j + 1)) [0..<n] @ [c])"
    using ex by (simp add: fill_ellipses_def numeral_2_eq_2)
  then have fill: "fill_ellipses ?raw = Inr (map ?f [0..<n + 3])"
    using progression_list[of a b n] c by simp
  have rng: "(\<forall>v\<in>set (map ?f [0..<n + 3]). std_in_range v) \<longleftrightarrow> 0 < a \<and> c < 289 / 1000"
  proof
    assume h: "\<forall>v\<in>set (map ?f [0..<n + 3]). std_in_range v"
    have m: "0 \<in> set [0..<n + 3]" "n + 2 \<in> set [0..<n + 3]" by simp_all
    have "?f 0 \<in> set (map ?f [0..<n + 3])" "?f (n + 2) \<in> set (map ?f [0..<n + 3])"
      unfolding set_map by (rule imageI[OF m(1)], rule imageI[OF m(2)])
    with h have "std_in_range (?f 0)" "std_in_range (?f (n + 2))" by blast+
    then show "0 < a \<and> c < 289 / 1000"
      using c by (simp add: std_in_range_def algebra_simps)
  next
    assume h: "0 < a \<and> c < 289 / 1000"
    show "\<forall>v\<in>set (map ?f [0..<n + 3]). std_in_range v"
    proof
      fix v assume "v \<in> set (map ?f [0..<n + 3])"
      then obtain k where k: "k < n + 3" "v = ?f k" by (auto simp del: upt_Suc)
      have "real k * (b - a) \<le> real (n + 2) * (b - a)"
        using k ab by (intro mult_right_mono) auto
      moreover have "0 \<le> real k * (b - a)" using ab by simp
      ultimately show "std_in_range v"
        using h k c by (simp add: std_in_range_def algebra_simps)
    qed
  qed
  have "parse_std_list (StrArg s) = validate (map ?f [0..<n + 3])"
    by (simp add: parse_std_list_raw[OF raw] parse_raw_def fill)
  also have "\<dots> = (if 0 < a \<and> c < 289 / 1000 then Inr (map ?f [0..<n + 3]) else Inl OutOfRange)"
  proof (cases "0 < a \<and> c < 289 / 1000")
    case True
    then show ?thesis
      using validate_in_range[of "map ?f [0..<n + 3]"] rng progression_sorted[OF ab, of "n + 3"]
      by simp
  next
    case False
    with rng obtain v where "v \<in> set (map ?f [0..<n + 3])" "\<not> std_in_range v" by blast
    then show ?thesis using False validate_out_of_range by simp
  qed
  finally show ?thesis using fill by simp
qed

theorem parse_std_list_progression_witness:
  "fill_ellipses [Some 1, Some 2, None, Some 5] = Inr [1, 2, 3, 4, 5]
   \<and> parse_std_list (StrArg ''1.0,2.0,...,5.0'') = Inl OutOfRange
   \<and> parse_std_list (StrArg ''0.05,0.10,...,0.25'') = Inr [1 / 20, 1 / 10, 3 / 20, 1 / 5, 1 / 4]"
  using parse_std_list_progression[OF raw_of_example, of 2]
    parse_std_list_progression[OF raw_of_in_range, of 2]
  by (simp add: upt_conv_Cons)

text \<open>
  The claim as the specification states it fails: on \<open>"1.0,2.0,...,5.0"\<close> the function
  raises and returns no sequence.
\<close>

theorem parse_std_list_example_rejected:
  "parse_std_list (StrArg ''1.0,2.0,...,5.0'') = Inl OutOfRange
   \<and> parse_std_list (StrArg ''1.0,2.0,...,5.0'') \<noteq> Inr [1, 2, 3, 4, 5]"
  by (simp add: parse_std_list_def raw_of_example parse_raw_def fill_ellipses_def
      expand_ellipsis_def approx_num_def py_round_def Let_def validate_def std_in_range_def
      upt_conv_Cons)

section \<open>Properties of \<open>std_to_exp\<close>\<close>

subsection \<open>The roots of the cubic\<close>

text \<open>
  With \<open>t = std\<^sup>-\<^sup>2\<close> the cubic is \<open>(x + 2)\<^sup>2 (x + 3) - t (x + 1)\<close>. For \<open>t > 45 / 4\<close>,
  which holds for every std below \<open>0.289\<close>, it has three real roots, one below \<open>-1\<close>, one
  between \<open>-1\<close> and \<open>-1/2\<close> and one above \<open>-1/2\<close>; they are all its complex roots.
\<close>

lemma polyval_cubic:
  "polyval [1, 7, 16 - t, 12 - t] z = z ^ 3 + 7 * z ^ 2 + (16 - of_real t) * z + (12 - of_real t)"
  by (simp add: polyval_def power3_eq_cube power2_eq_square algebra_simps)

lemma polyval_of_real:
  "polyval [1, 7, 16 - t, 12 - t] (of_real x) = of_real (cubic t x)"
  by (simp add: polyval_cubic cubic_def)

lemma cubic_cont: "continuous_on A (cubic t)"
  unfolding cubic_def by (intro continuous_intros)

lemma cubic_factored: "cubic t x = (x + 2) ^ 2 * (x + 3) - t * (x + 1)"
  by (simp add: cubic_def power3_eq_cube power2_eq_square algebra_simps)

lemma cubic_at_minus1: "cubic t (- 1) = 2"
  by (simp add: cubic_factored)

lemma cubic_at_half: "cubic t (- (1 / 2)) = 45 / 8 - t / 2"
  by (simp add: cubic_factored power2_eq_square)

lemma cubic_pos_large:
  assumes "1 \<le> t" "t \<le> x"
  shows "0 < cubic t x"
proof -
  have x1: "1 \<le> x" using assms by simp
  have "t * x \<le> x * x" using assms by (intro mult_right_mono) auto
  also have "\<dots> \<le> x * x * x" using x1 by (simp add: mult_le_cancel_left1)
  finally have a: "t * x \<le> x ^ 3" by (simp add: power3_eq_cube)
  have "x * 1 \<le> x * x" using x1 by (intro mult_left_mono) auto
  then have "x \<le> x * x" by simp
  then have "t \<le> x * x" using assms by linarith
  moreover have "0 \<le> x * x" by simp
  ultimately have b: "t < 7 * x ^ 2 + 12" unfolding power2_eq_square by linarith
  have "cubic t x = (x ^ 3 - t * x) + (7 * x ^ 2 + 12 - t) + 16 * x"
    by (simp add: cubic_def algebra_simps)
  then show ?thesis using a b x1 by linarith
qed

lemma cubic_neg_small:
  assumes "1 \<le> t"
  shows "cubic t (- (t + 3)) < 0"
proof -
  have t_pos: "0 < t ^ 2" using assms by simp
  have "cubic t (- (t + 3)) = t * (1 - t - t ^ 2)"
    by (simp add: cubic_factored power2_eq_square algebra_simps)
  moreover have "0 \<le> t ^ 2" by simp
  then have "1 - t - t ^ 2 < 0" using assms t_pos by linarith
  ultimately show ?thesis using assms by (simp add: mult_pos_neg)
qed

lemma three_real_roots:
  assumes t: "45 / 4 < t"
  obtains r1 r2 r3 where "r1 < - 1" "- 1 < r2" "r2 < - (1 / 2)" "- (1 / 2) < r3"
    "cubic t r1 = 0" "cubic t r2 = 0" "cubic t r3 = 0"
proof -
  have t1: "1 \<le> t" using t by simp
  have "\<exists>x. - (t + 3) \<le> x \<and> x \<le> - 1 \<and> cubic t x = 0"
    by (rule IVT') (use cubic_neg_small[OF t1] t in \<open>simp_all add: cubic_at_minus1 cubic_cont\<close>)
  then obtain r1 where r1: "r1 \<le> - 1" "cubic t r1 = 0" by blast
  have "r1 \<noteq> - 1" using r1(2) cubic_at_minus1[of t] by auto
  with r1 have r1': "r1 < - 1" by simp
  have "\<exists>x. - 1 \<le> x \<and> x \<le> - (1 / 2) \<and> cubic t x = 0"
    by (rule IVT2') (use t in \<open>simp_all add: cubic_at_minus1 cubic_at_half cubic_cont\<close>)
  then obtain r2 where r2: "- 1 \<le> r2" "r2 \<le> - (1 / 2)" "cubic t r2 = 0" by blast
  have "r2 \<noteq> - 1" using r2(3) cubic_at_minus1[of t] by auto
  moreover have "r2 \<noteq> - (1 / 2)" using r2(3) cubic_at_half[of t] t by auto
  ultimately have r2': "- 1 < r2" "r2 < - (1 / 2)" using r2 by simp_all
  have "\<exists>x. - (1 / 2) \<le> x \<and> x \<le> t \<and> cubic t x = 0"
    by (rule IVT') (use t cubic_pos_large[OF t1, of t] in \<open>simp_all add: cubic_at_half cubic_cont\<close>)
  then obtain r3 where r3: "- (1 / 2) \<le> r3" "cubic t r3 = 0" by blast
  have "r3 \<noteq> - (1 / 2)" using r3(2) cubic_at_half[of t] t by auto
  with r3 have r3': "- (1 / 2) < r3" by simp
  show ?thesis using that r1' r2' r3' r1(2) r2(3) r3(2) by blast
qed

lemma vieta:
  assumes "cubic t r1 = 0" "cubic t r2 = 0" "cubic t r3 = 0"
    and ne: "r1 \<noteq> r2" "r2 \<noteq> r3" "r1 \<noteq> r3"
  shows "r1 + r2 + r3 = - 7" "r1 * r2 + r1 * r3 + r2 * r3 = 16 - t" "r1 * r2 * r3 = - (12 - t)"
proof -
  define q where "q a b = a ^ 2 + a * b + b ^ 2 + 7 * (a + b) + (16 - t)" for a b :: real
  have diff: "(a - b) * q a b = cubic t a - cubic t b" for a b
    by (simp add: q_def cubic_def power3_eq_cube power2_eq_square algebra_simps)
  have q23: "q r3 r2 = 0" using diff[of r3 r2] assms by auto
  have q13: "q r3 r1 = 0" using diff[of r3 r1] assms by auto
  have "(r2 - r1) * (r1 + r2 + r3 + 7) = q r3 r2 - q r3 r1"
    by (simp add: q_def power2_eq_square algebra_simps)
  with q23 q13 ne show s: "r1 + r2 + r3 = - 7" by auto
  then have r1: "r1 = - 7 - r2 - r3" by simp
  show p: "r1 * r2 + r1 * r3 + r2 * r3 = 16 - t"
    using q23 unfolding r1 q_def by (simp add: power2_eq_square algebra_simps)
  have "r1 * r2 = 16 - t - r3 * (r1 + r2)" using p by (simp add: algebra_simps)
  also have "r1 + r2 = - 7 - r3" using s by simp
  finally have "r1 * r2 * r3 = (16 - t - r3 * (- 7 - r3)) * r3" by simp
  also have "\<dots> = cubic t r3 - (12 - t)"
    by (simp add: cubic_def power3_eq_cube power2_eq_square algebra_simps)
  finally show "r1 * r2 * r3 = - (12 - t)" using assms by simp
qed

lemma roots_are_real:
  assumes "cubic t r1 = 0" "cubic t r2 = 0" "cubic t r3 = 0"
    and ne: "r1 \<noteq> r2" "r2 \<noteq> r3" "r1 \<noteq> r3"
  shows "np_roots [1, 7, 16 - t, 12 - t] = {of_real r1, of_real r2, of_real r3}"
proof -
  note v = vieta[OF assms]
  have fact: "polyval [1, 7, 16 - t, 12 - t] z
      = (z - of_real r1) * (z - of_real r2) * (z - of_real r3)" for z
  proof -
    have "(z - of_real r1) * (z - of_real r2) * (z - of_real r3)
        = z ^ 3 - of_real (r1 + r2 + r3) * z ^ 2 + of_real (r1 * r2 + r1 * r3 + r2 * r3) * z
          - of_real (r1 * r2 * r3)"
      by (simp add: power3_eq_cube power2_eq_square algebra_simps)
    also have "\<dots> = polyval [1, 7, 16 - t, 12 - t] z"
      unfolding v polyval_cubic by simp
    finally show ?thesis by simp
  qed
  show ?thesis unfolding np_roots_def fact by auto
qed

lemma max_root_eq:
  assumes t: "45 / 4 < t"
  shows "\<exists>r. max_root t = r \<and> cubic t r = 0 \<and> - (1 / 2) < r \<and> (\<forall>x. cubic t x = 0 \<longrightarrow> x \<le> r)
             \<and> (\<forall>x. cubic t x = 0 \<and> - (1 / 2) < x \<longrightarrow> x = r)
             \<and> (\<forall>z\<in>np_roots [1, 7, 16 - t, 12 - t]. Im z = 0)"
proof -
  obtain r1 r2 r3 where r: "r1 < - 1" "- 1 < r2" "r2 < - (1 / 2)" "- (1 / 2) < r3"
    "cubic t r1 = 0" "cubic t r2 = 0" "cubic t r3 = 0"
    using three_real_roots[OF t] by blast
  have set: "np_roots [1, 7, 16 - t, 12 - t] = {of_real r1, of_real r2, of_real r3}"
    by (rule roots_are_real) (use r in auto)
  have "Re ` np_roots [1, 7, 16 - t, 12 - t] = {r1, r2, r3}" unfolding set by simp
  then have m: "max_root t = r3" using r by (simp add: max_root_def)
  have cases: "x = r1 \<or> x = r2 \<or> x = r3" if "cubic t x = 0" for x
  proof -
    have "of_real x \<in> np_roots [1, 7, 16 - t, 12 - t]"
      using that by (simp add: np_roots_def polyval_of_real)
    then show ?thesis unfolding set by simp
  qed
  have le: "x \<le> r3" if "cubic t x = 0" for x
    using cases[OF that] r by auto
  have uniq: "x = r3" if "cubic t x = 0" "- (1 / 2) < x" for x
    using cases[OF that(1)] that(2) r by auto
  have im: "\<forall>z\<in>np_roots [1, 7, 16 - t, 12 - t]. Im z = 0" unfolding set by simp
  show ?thesis
  proof (intro exI[of _ r3] conjI allI impI)
    show "max_root t = r3" by (rule m)
    show "cubic t r3 = 0" by (rule r(7))
    show "- (1 / 2) < r3" by (rule r(4))
    show "x \<le> r3" if "cubic t x = 0" for x by (rule le[OF that])
    show "x = r3" if "cubic t x = 0 \<and> - (1 / 2) < x" for x using uniq that by blast
    show "\<forall>z\<in>np_roots [1, 7, 16 - t, 12 - t]. Im z = 0" by (rule im)
  qed
qed

lemma powi_minus2: "(x::real) powi (- 2) = 1 / x ^ 2"
  by (simp add: power_int_def power_divide inverse_eq_divide)

lemma t_of_std_large:
  assumes "0 < (std::real)" "std < 289 / 1000"
  shows "45 / 4 < std powi (- 2)"
proof -
  have "std ^ 2 < (289 / 1000) ^ 2" using assms by (intro power_strict_mono) auto
  then have "45 / 4 * std ^ 2 < 1" by (simp add: power2_eq_square)
  moreover have "0 < std ^ 2" using assms by simp
  ultimately show ?thesis unfolding powi_minus2 by (simp add: pos_less_divide_eq)
qed

lemma t_of_std_antimono:
  assumes "0 < (s1::real)" "s1 < s2"
  shows "s2 powi (- 2) < s1 powi (- 2)"
proof -
  have "s1 ^ 2 < s2 ^ 2" using assms by (intro power_strict_mono) auto
  moreover have "0 < s1 ^ 2" using assms by simp
  ultimately show ?thesis unfolding powi_minus2 by (simp add: frac_less2)
qed

lemma t_of_std_gt12:
  assumes "0 < (std::real)"
  shows "12 < std powi (- 2) \<longleftrightarrow> 12 * std ^ 2 < 1"
proof -
  have "0 < std ^ 2" using assms by simp
  then show ?thesis unfolding powi_minus2 by (simp add: pos_less_divide_eq)
qed

lemma max_root_pos_iff:
  assumes t: "45 / 4 < t"
  shows "0 < max_root t \<longleftrightarrow> 12 < t"
proof -
  obtain r where r: "max_root t = r" "cubic t r = 0" "\<forall>x. cubic t x = 0 \<longrightarrow> x \<le> r"
    using max_root_eq[OF t] by blast
  show ?thesis
  proof
    assume pos: "0 < max_root t"
    show "12 < t"
    proof (rule ccontr)
      assume "\<not> 12 < t"
      then have t12: "t \<le> 12" by simp
      have "0 < r ^ 3" "0 < 7 * r ^ 2" "0 < (16 - t) * r" using pos r(1) t12 by simp_all
      then have "0 < cubic t r" using t12 unfolding cubic_def by linarith
      with r(2) show False by simp
    qed
  next
    assume t12: "12 < t"
    have "\<exists>x. 0 \<le> x \<and> x \<le> t \<and> cubic t x = 0"
      by (rule IVT') (use t12 cubic_pos_large[of t t] in \<open>simp_all add: cubic_cont\<close>,
          simp add: cubic_def)
    then obtain x where x: "0 \<le> x" "cubic t x = 0" by blast
    have "x \<noteq> 0" using x(2) t12 by (auto simp: cubic_def)
    then have "0 < x" using x(1) by simp
    moreover have "x \<le> r" using r(3) x(2) by blast
    ultimately show "0 < max_root t" using r(1) by simp
  qed
qed

lemma max_root_strict_mono:
  assumes t2: "45 / 4 < t2" and lt: "t2 < t1"
  shows "max_root t2 < max_root t1"
proof -
  have t1: "45 / 4 < t1" using t2 lt by simp
  obtain r where r: "max_root t2 = r" "cubic t2 r = 0" "- (1 / 2) < r"
    using max_root_eq[OF t2] by blast
  obtain r' where r': "max_root t1 = r'" "\<forall>x. cubic t1 x = 0 \<longrightarrow> x \<le> r'"
    using max_root_eq[OF t1] by blast
  have "cubic t1 r = cubic t2 r - (t1 - t2) * (r + 1)"
    by (simp add: cubic_def algebra_simps)
  moreover have "0 < (t1 - t2) * (r + 1)" using lt r(3) by simp
  ultimately have neg: "cubic t1 r < 0" using r(2) by simp
  define b where "b = max t1 r"
  have pos: "0 < cubic t1 b" by (rule cubic_pos_large) (use t1 in \<open>simp_all add: b_def\<close>)
  have "\<exists>x. r \<le> x \<and> x \<le> b \<and> cubic t1 x = 0"
    by (rule IVT') (use neg pos in \<open>simp_all add: cubic_cont b_def\<close>)
  then obtain x where x: "r \<le> x" "cubic t1 x = 0" by blast
  have "x \<noteq> r" using x(2) neg by auto
  then have "r < x" using x(1) by simp
  moreover have "x \<le> r'" using r'(2) x(2) by blast
  ultimately show ?thesis using r(1) r'(1) by simp
qed

lemma std_to_exp0_pos_iff:
  assumes "0 < std" "std < 289 / 1000"
  shows "0 < std_to_exp0 std \<longleftrightarrow> 12 * std ^ 2 < 1"
  unfolding std_to_exp0_def
  using max_root_pos_iff[OF t_of_std_large[OF assms]] t_of_std_gt12[OF assms(1)] by simp

lemma std_to_exp0_decreasing:
  assumes "0 < std1" "std1 < std2" "std2 < 289 / 1000"
  shows "std_to_exp0 std2 < std_to_exp0 std1"
  unfolding std_to_exp0_def
  by (rule max_root_strict_mono[OF t_of_std_large t_of_std_antimono]) (use assms in auto)

lemma std_to_exp0_gt_minus_half:
  assumes "0 < std" "std < 289 / 1000"
  shows "- (1 / 2) < std_to_exp0 std"
  unfolding std_to_exp0_def
  using max_root_eq[OF t_of_std_large[OF assms]] by blast

lemma std_to_exp0_example: "std_to_exp0 (10 / 39) = 3 / 5"
proof -
  have t: "(10 / 39 :: real) powi (- 2) = 1521 / 100"
    by (simp add: powi_minus2 power2_eq_square)
  have root: "cubic (1521 / 100) (3 / 5) = 0"
    by (simp add: cubic_def power3_eq_cube power2_eq_square)
  have "45 / 4 < (1521 / 100 :: real)" by simp
  from max_root_eq[OF this] obtain r where r: "max_root (1521 / 100) = r"
    "\<forall>x. cubic (1521 / 100) x = 0 \<and> - (1 / 2) < x \<longrightarrow> x = r" by blast
  have "- (1 / 2) < (3 / 5 :: real)" by simp
  with root have "cubic (1521 / 100) (3 / 5) = 0 \<and> - (1 / 2) < (3 / 5 :: real)" by (rule conjI)
  then have "(3 / 5 :: real) = r" using r(2)[rule_format, of "3 / 5"] by blast
  then have "max_root (1521 / 100) = 3 / 5" using r(1) by simp
  then show ?thesis by (simp add: std_to_exp0_def t)
qed


subsection \<open>The largest root\<close>

text \<open>
  Claim C3. For every std in \<open>(0, 0.289)\<close>, \<open>std_to_exp\<close> returns the greatest real
  part among the complex roots of \<open>x\<^sup>3 + 7 x\<^sup>2 + (16 - t) x + (12 - t)\<close> with
  \<open>t = std\<^sup>-\<^sup>2\<close>, and this number is a real root of the cubic that no real root
  exceeds. On an array the function keeps the shape and maps the elements one by one.
\<close>

theorem std_to_exp_largest_root:
  assumes "0 < std" "std < 289 / 1000"
  shows "std_to_exp0 std = Max (Re ` np_roots [1, 7, 16 - std powi (- 2), 12 - std powi (- 2)])
       \<and> cubic (std powi (- 2)) (std_to_exp0 std) = 0
       \<and> (\<forall>x. cubic (std powi (- 2)) x = 0 \<longrightarrow> x \<le> std_to_exp0 std)
       \<and> shape (std_to_exp a) = shape a
       \<and> elems (std_to_exp a) = map std_to_exp0 (elems a)"
proof -
  have "elems (std_to_exp a) = map std_to_exp0 (elems a)"
    by (simp add: std_to_exp_def std_to_exp0_def)
  moreover have "shape (std_to_exp a) = shape a" by (simp add: std_to_exp_def)
  ultimately show ?thesis
    using max_root_eq[OF t_of_std_large[OF assms]]
    by (auto simp: std_to_exp0_def max_root_def)
qed

theorem std_to_exp_largest_root_witness:
  "(0::real) < 10 / 39 \<and> (10::real) / 39 < 289 / 1000
   \<and> cubic (1521 / 100) (3 / 5) = 0
   \<and> 3 / 5 \<le> std_to_exp0 (10 / 39)
   \<and> cubic (1521 / 100) (std_to_exp0 (10 / 39)) = 0
   \<and> std_to_exp \<lparr>shape = [2], elems = [1 / 10, 1 / 5]\<rparr>
       = \<lparr>shape = [2], elems = [std_to_exp0 (1 / 10), std_to_exp0 (1 / 5)]\<rparr>"
proof -
  have h: "(0::real) < 10 / 39" "(10::real) / 39 < 289 / 1000" by simp_all
  have t: "(10 / 39 :: real) powi (- 2) = 1521 / 100"
    by (simp add: powi_minus2 power2_eq_square)
  have root: "cubic (1521 / 100) (3 / 5) = 0"
    by (simp add: cubic_def power3_eq_cube power2_eq_square)
  note T = std_to_exp_largest_root[OF h, of "\<lparr>shape = [2], elems = [1 / 10, 1 / 5]\<rparr>", unfolded t]
  from T have le: "\<forall>x. cubic (1521 / 100) x = 0 \<longrightarrow> x \<le> std_to_exp0 (10 / 39)" by blast
  from T have z: "cubic (1521 / 100) (std_to_exp0 (10 / 39)) = 0" by blast
  from T have arr: "shape (std_to_exp \<lparr>shape = [2], elems = [1 / 10, 1 / 5]\<rparr>) = [2]"
    "elems (std_to_exp \<lparr>shape = [2], elems = [1 / 10, 1 / 5]\<rparr>)
       = [std_to_exp0 (1 / 10), std_to_exp0 (1 / 5)]" by simp_all
  have "std_to_exp \<lparr>shape = [2], elems = [1 / 10, 1 / 5]\<rparr>
       = \<lparr>shape = [2], elems = [std_to_exp0 (1 / 10), std_to_exp0 (1 / 5)]\<rparr>"
    using arr by (cases "std_to_exp \<lparr>shape = [2], elems = [1 / 10, 1 / 5]\<rparr>") simp
  then show ?thesis using h root le z by blast
qed

subsection \<open>Sign and monotonicity\<close>

text \<open>
  Claim C9, as the source has it. For every std in \<open>(0, 0.289)\<close> the exponent is
  positive exactly when \<open>12 std\<^sup>2 < 1\<close>, that is for std below \<open>1 / sqrt 12\<close>, which is
  about \<open>0.28868\<close>; and it is strictly smaller at every larger std of the interval.
\<close>

theorem std_to_exp_positive_decreasing:
  assumes "0 < std" "std < 289 / 1000"
  shows "(0 < std_to_exp0 std \<longleftrightarrow> 12 * std ^ 2 < 1)
       \<and> (\<forall>std'. std < std' \<and> std' < 289 / 1000 \<longrightarrow> std_to_exp0 std' < std_to_exp0 std)"
  using std_to_exp0_pos_iff[OF assms] std_to_exp0_decreasing[OF assms(1)] by blast

theorem std_to_exp_positive_decreasing_witness:
  "(0::real) < 1 / 10 \<and> (1::real) / 10 < 289 / 1000
   \<and> 0 < std_to_exp0 (1 / 10) \<and> std_to_exp0 (1 / 5) < std_to_exp0 (1 / 10)"
proof -
  have h: "(0::real) < 1 / 10" "(1::real) / 10 < 289 / 1000" by simp_all
  have k: "(1::real) / 10 < 1 / 5 \<and> (1::real) / 5 < 289 / 1000" by simp
  from std_to_exp_positive_decreasing[OF h]
  have a: "0 < std_to_exp0 (1 / 10) \<longleftrightarrow> 12 * (1 / 10 :: real) ^ 2 < 1"
    and b: "\<forall>std'. 1 / 10 < std' \<and> std' < 289 / 1000 \<longrightarrow> std_to_exp0 std' < std_to_exp0 (1 / 10)"
    by blast+
  have "12 * (1 / 10 :: real) ^ 2 < 1" by (simp add: power2_eq_square)
  with a have "0 < std_to_exp0 (1 / 10)" by blast
  moreover from b k have "std_to_exp0 (1 / 5) < std_to_exp0 (1 / 10)" by blast
  ultimately show ?thesis using h by blast
qed

text \<open>
  The claim as the specification states it fails between \<open>1 / sqrt 12\<close> and \<open>0.289\<close>:
  at \<open>std = 0.2888\<close> the exponent is not positive.
\<close>

theorem std_to_exp_not_positive_near_bound:
  "(0::real) < 361 / 1250 \<and> (361::real) / 1250 < 289 / 1000 \<and> \<not> 0 < std_to_exp0 (361 / 1250)"
proof -
  have h: "(0::real) < 361 / 1250" "(361::real) / 1250 < 289 / 1000" by simp_all
  have "\<not> 12 * (361 / 1250 :: real) ^ 2 < 1" by (simp add: power2_eq_square)
  then show ?thesis using std_to_exp0_pos_iff[OF h] h by blast
qed

section \<open>Properties of \<open>power_function_correlation\<close>\<close>

lemma exp_sum_pos:
  assumes "0 < a_std" "a_std < 289 / 1000" "0 < b_std" "b_std < 289 / 1000"
  shows "0 < std_to_exp0 a_std + std_to_exp0 b_std + 1"
  using std_to_exp0_gt_minus_half[OF assms(1,2)] std_to_exp0_gt_minus_half[OF assms(3,4)]
  by linarith

lemma power_function_correlation_pos:
  assumes "0 < a_ofs" "0 < b_ofs"
    and "0 < a_std" "a_std < 289 / 1000" "0 < b_std" "b_std < 289 / 1000"
  shows "0 < power_function_correlation a_ofs a_std b_ofs b_std"
proof -
  have a: "0 < std_to_exp0 a_std + 1" using std_to_exp0_gt_minus_half[OF assms(3,4)] by linarith
  have b: "0 < std_to_exp0 b_std + 1" using std_to_exp0_gt_minus_half[OF assms(5,6)] by linarith
  have r: "0 < a_ofs / b_ofs" using assms(1,2) by simp
  have m: "0 < max a_ofs b_ofs" using assms(1) by simp
  have p: "0 < (a_ofs / b_ofs) powr e" for e using assms(1,2) by simp
  show ?thesis
    unfolding power_function_correlation_def Let_def
    by (intro divide_pos_pos mult_pos_pos a b p m exp_sum_pos assms)
qed

lemma self_correlation_example:
  "power_function_correlation 1 (10 / 39) 1 (10 / 39) = 64 / 55"
  by (simp add: power_function_correlation_def std_to_exp0_example Let_def)

text \<open>
  Claim C2. For positive offsets and stds in \<open>(0, 0.289)\<close> the correlation is
  \<open>(a_exp + 1) (b_exp + 1) (a_ofs / b_ofs)\<^sup>e / ((a_exp + b_exp + 1) max(a_ofs, b_ofs))\<close>
  with \<open>e = b_exp\<close> when \<open>a_ofs < b_ofs\<close> and \<open>e = - a_exp\<close> otherwise, so also when the
  offsets are equal. There the base of the power and the denominator are positive, so
  the real power and the quotient are the ones NumPy computes.
\<close>

theorem power_function_correlation_formula:
  assumes "0 < a_ofs" "0 < b_ofs"
    and "0 < a_std" "a_std < 289 / 1000" "0 < b_std" "b_std < 289 / 1000"
  shows "power_function_correlation a_ofs a_std b_ofs b_std
           = (std_to_exp0 a_std + 1) * (std_to_exp0 b_std + 1)
               * (a_ofs / b_ofs) powr (if a_ofs < b_ofs then std_to_exp0 b_std else - std_to_exp0 a_std)
             / ((std_to_exp0 a_std + std_to_exp0 b_std + 1) * max a_ofs b_ofs)
       \<and> 0 < a_ofs / b_ofs
       \<and> 0 < (std_to_exp0 a_std + std_to_exp0 b_std + 1) * max a_ofs b_ofs
       \<and> (a_ofs = b_ofs \<longrightarrow>
            power_function_correlation a_ofs a_std b_ofs b_std
              = (std_to_exp0 a_std + 1) * (std_to_exp0 b_std + 1)
                  * (a_ofs / b_ofs) powr (- std_to_exp0 a_std)
                / ((std_to_exp0 a_std + std_to_exp0 b_std + 1) * max a_ofs b_ofs))"
proof -
  have "0 < max a_ofs b_ofs" using assms(1) by simp
  then have "0 < (std_to_exp0 a_std + std_to_exp0 b_std + 1) * max a_ofs b_ofs"
    using exp_sum_pos[OF assms(3-6)] by (intro mult_pos_pos)
  moreover have "0 < a_ofs / b_ofs" using assms(1,2) by simp
  ultimately show ?thesis
    by (simp add: power_function_correlation_def Let_def)
qed

theorem power_function_correlation_formula_witness:
  "power_function_correlation 1 (10 / 39) 2 (10 / 39) = (8 / 5) * (8 / 5) * (1 / 2) powr (3 / 5) / (11 / 5 * 2)
   \<and> power_function_correlation 2 (10 / 39) 1 (10 / 39) = (8 / 5) * (8 / 5) * 2 powr (- (3 / 5)) / (11 / 5 * 2)
   \<and> power_function_correlation 1 (10 / 39) 1 (10 / 39) = (8 / 5) * (8 / 5) * 1 powr (- (3 / 5)) / (11 / 5 * 1)"
proof -
  have h: "(0::real) < 1" "(0::real) < 2" "(0::real) < 10 / 39" "(10::real) / 39 < 289 / 1000"
    by simp_all
  show ?thesis
    using power_function_correlation_formula[OF h(1) h(2) h(3) h(4) h(3) h(4)]
      power_function_correlation_formula[OF h(2) h(1) h(3) h(4) h(3) h(4)]
      power_function_correlation_formula[OF h(1) h(1) h(3) h(4) h(3) h(4)]
    by (simp add: std_to_exp0_example)
qed

section \<open>Properties of \<open>solve_posthoc_coefficients\<close>\<close>

subsection \<open>Normalisation of the columns\<close>

lemma broadcast_same: "length xs = length ys \<Longrightarrow> broadcast_arrays xs ys = Inr (xs, ys)"
  by (simp add: broadcast_arrays_def)

lemma sum_list_divide_const:
  "sum_list (map (\<lambda>x. f x / (c::real)) xs) = sum_list (map f xs) / c"
  by (induction xs) (simp_all add: add_divide_distrib)

lemma col_sums_nth: "j < m \<Longrightarrow> col_sums m X ! j = col_sum X j"
  by (simp add: col_sums_def)

lemma normalize_columns_shape:
  "has_shape n m X \<Longrightarrow> has_shape n m (normalize_columns m X)"
  by (auto simp: has_shape_def normalize_columns_def col_sums_def list_all_iff)

lemma normalize_columns_entry:
  assumes "has_shape n m X" "i < n" "j < m"
  shows "normalize_columns m X ! i ! j = X ! i ! j / col_sum X j"
proof -
  have len: "length X = n" "length (X ! i) = m"
    using assms by (auto simp: has_shape_def list_all_iff)
  show ?thesis using assms len by (simp add: normalize_columns_def col_sums_def)
qed

lemma col_sum_normalize:
  assumes "has_shape n m X" "j < m"
  shows "col_sum (normalize_columns m X) j = col_sum X j / col_sum X j"
proof -
  have rows: "\<forall>row\<in>set X. length row = m" using assms by (auto simp: has_shape_def list_all_iff)
  have "col_sum (normalize_columns m X) j
      = sum_list (map (\<lambda>row. map2 (/) row (col_sums m X) ! j) X)"
    by (simp add: col_sum_def normalize_columns_def comp_def)
  also have "\<dots> = sum_list (map (\<lambda>row. row ! j / col_sum X j) X)"
  proof (rule arg_cong[where f = sum_list], rule map_cong[OF refl])
    fix row assume "row \<in> set X"
    then have "length row = m" using rows by blast
    then show "map2 (/) row (col_sums m X) ! j = row ! j / col_sum X j"
      using assms(2) by (simp add: col_sums_def)
  qed
  also have "\<dots> = col_sum X j / col_sum X j"
    by (simp add: sum_list_divide_const col_sum_def)
  finally show ?thesis .
qed

subsection \<open>Vectors and the correlation matrix\<close>

lemma dot_sum:
  assumes "length u = length v"
  shows "dot u v = (\<Sum>i<length u. u ! i * v ! i)"
proof -
  have "dot u v = (\<Sum>i = 0..<length (map2 (*) u v). map2 (*) u v ! i)"
    unfolding dot_def by (rule sum_list_sum_nth)
  also have "\<dots> = (\<Sum>i = 0..<length u. u ! i * v ! i)"
    using assms by (intro sum.cong) auto
  finally show ?thesis by (simp add: lessThan_atLeast0)
qed

lemma dot_unit:
  assumes "k < n" "length row = n"
  shows "dot row ((replicate n 0)[k := 1]) = row ! k"
proof -
  have "dot row ((replicate n 0)[k := 1]) = (\<Sum>i<n. row ! i * (replicate n 0)[k := 1] ! i)"
    using assms dot_sum[of row "(replicate n 0)[k := 1]"] by simp
  also have "\<dots> = (\<Sum>i<n. if i = k then row ! i else 0)"
    by (intro sum.cong) (auto simp: nth_list_update)
  also have "\<dots> = row ! k" using assms by simp
  finally show ?thesis .
qed

lemma dot_diff:
  assumes "length u = length row" "length v = length row"
  shows "dot row (map2 (-) u v) = dot row u - dot row v"
proof -
  have "dot row (map2 (-) u v) = (\<Sum>i<length row. row ! i * (u ! i - v ! i))"
    using assms dot_sum[of row "map2 (-) u v"] by simp
  also have "\<dots> = (\<Sum>i<length row. row ! i * u ! i) - (\<Sum>i<length row. row ! i * v ! i)"
    by (simp add: right_diff_distrib sum_subtractf)
  finally show ?thesis using assms dot_sum[of row u] dot_sum[of row v] by simp
qed

lemma correlation_matrix_length [simp]:
  "length (correlation_matrix a_ofs a_std b_ofs b_std) = min (length a_ofs) (length a_std)"
  by (simp add: correlation_matrix_def)

lemma correlation_matrix_row:
  assumes "i < length a_ofs" "length a_ofs = length a_std"
  shows "correlation_matrix a_ofs a_std b_ofs b_std ! i
           = map (\<lambda>(bo, bsd). power_function_correlation (a_ofs ! i) (a_std ! i) bo bsd)
                 (zip b_ofs b_std)"
  using assms by (simp add: correlation_matrix_def)

lemma correlation_matrix_entry:
  assumes "i < length a_ofs" "length a_ofs = length a_std" "j < length b_ofs"
    "length b_ofs = length b_std"
  shows "correlation_matrix a_ofs a_std b_ofs b_std ! i ! j
           = power_function_correlation (a_ofs ! i) (a_std ! i) (b_ofs ! j) (b_std ! j)"
  using assms by (simp add: correlation_matrix_row)

lemma sum_list_unit:
  "k < n \<Longrightarrow> sum_list ((replicate n 0)[k := 1 :: real]) = 1"
proof (induction n arbitrary: k)
  case (Suc n)
  then show ?case by (cases k) (simp_all add: sum_list_replicate)
qed simp

lemma unit_normalized:
  assumes "k < n"
  shows "normalize_columns 1 (map (\<lambda>x. [x]) ((replicate n 0)[k := 1 :: real]))
           = map (\<lambda>x. [x]) ((replicate n 0)[k := 1])"
proof -
  let ?e = "(replicate n 0)[k := 1 :: real]"
  have "col_sum (map (\<lambda>x. [x]) ?e) 0 = sum_list ?e"
    by (simp add: col_sum_def comp_def)
  also have "\<dots> = 1" by (rule sum_list_unit[OF assms])
  finally have "col_sums 1 (map (\<lambda>x. [x]) ?e) = [1]" by (simp add: col_sums_def)
  then show ?thesis by (simp add: normalize_columns_def)
qed

lemma exact_match_solution:
  assumes len: "length in_ofs = length in_std" and k: "k < length in_ofs"
    and sol: "solves (correlation_matrix in_ofs in_std in_ofs in_std)
               (correlation_matrix in_ofs in_std [in_ofs ! k] [in_std ! k]) 1 X"
    and ns: "nonsingular (correlation_matrix in_ofs in_std in_ofs in_std)"
  shows "X = map (\<lambda>x. [x]) ((replicate (length in_ofs) 0)[k := 1])"
proof -
  let ?n = "length in_ofs"
  let ?A = "correlation_matrix in_ofs in_std in_ofs in_std"
  let ?B = "correlation_matrix in_ofs in_std [in_ofs ! k] [in_std ! k]"
  let ?e = "(replicate ?n 0)[k := 1 :: real]"
  let ?c = "column X 0"
  let ?d = "map2 (-) ?c ?e"
  have lA: "length ?A = ?n" using len by simp
  have rowA: "length (?A ! i) = ?n" if "i < ?n" for i
    using that len by (simp add: correlation_matrix_row)
  have shape: "length X = ?n" "\<forall>row\<in>set X. length row = 1"
    using sol lA by (auto simp: solves_def has_shape_def list_all_iff)
  have eq: "mat_vec ?A ?c = column ?B 0"
    using sol by (simp add: solves_def)
  have lc: "length ?c = ?n" using shape by (simp add: column_def)
  have le: "length ?e = ?n" by simp
  have ld: "length ?d = ?n" using lc by simp
  have Bcol: "column ?B 0 ! i = ?A ! i ! k" if "i < ?n" for i
    using that len k
    by (simp add: column_def correlation_matrix_entry)
  have "mat_vec ?A ?d = replicate ?n 0"
  proof (rule nth_equalityI)
    show "length (mat_vec ?A ?d) = length (replicate ?n (0::real))"
      using lA by (simp add: mat_vec_def)
  next
    fix i assume "i < length (mat_vec ?A ?d)"
    then have i: "i < ?n" using lA by (simp add: mat_vec_def)
    have "mat_vec ?A ?d ! i = dot (?A ! i) ?d" using i lA by (simp add: mat_vec_def)
    also have "\<dots> = dot (?A ! i) ?c - dot (?A ! i) ?e"
      by (rule dot_diff) (use lc le rowA[OF i] in simp_all)
    also have "dot (?A ! i) ?c = mat_vec ?A ?c ! i" using i lA by (simp add: mat_vec_def)
    also have "\<dots> = ?A ! i ! k" unfolding eq by (rule Bcol[OF i])
    also have "dot (?A ! i) ?e = ?A ! i ! k" by (rule dot_unit[OF k rowA[OF i]])
    finally show "mat_vec ?A ?d ! i = replicate ?n 0 ! i" using i by simp
  qed
  with ns ld lA have d0: "?d = replicate ?n 0" unfolding nonsingular_def by metis
  have ce: "?c = ?e"
  proof (rule nth_equalityI)
    show "length ?c = length ?e" using lc by simp
  next
    fix i assume "i < length ?c"
    then have i: "i < ?n" using lc by simp
    have "?d ! i = ?c ! i - ?e ! i" using i lc by simp
    moreover have "?d ! i = 0" using d0 i by simp
    ultimately show "?c ! i = ?e ! i" by simp
  qed
  have "X = map (\<lambda>x. [x]) ?c"
  proof (rule nth_equalityI)
    show "length X = length (map (\<lambda>x. [x]) ?c)" by (simp add: column_def)
  next
    fix i assume i: "i < length X"
    then have "length (X ! i) = 1" using shape(2) by simp
    then obtain x where "X ! i = [x]" by (cases "X ! i") auto
    then show "X ! i = map (\<lambda>x. [x]) ?c ! i" using i by (simp add: column_def)
  qed
  then show ?thesis using ce by simp
qed

lemma nonsingular_2x2:
  assumes "a * d - b * c \<noteq> 0"
  shows "nonsingular [[a, b], [c, d]]"
  unfolding nonsingular_def
proof (intro allI impI)
  fix v :: "real list"
  assume h: "length v = length [[a, b], [c, d]]
               \<and> mat_vec [[a, b], [c, d]] v = replicate (length [[a, b], [c, d]]) 0"
  then have "length v = Suc (Suc 0)" by simp
  then obtain x y where v: "v = [x, y]"
    by (cases v; cases "tl v") auto
  with h have e1: "a * x + b * y = 0" and e2: "c * x + d * y = 0"
    by (simp_all add: mat_vec_def dot_def numeral_2_eq_2)
  have "(a * d - b * c) * x = d * (a * x + b * y) - b * (c * x + d * y)"
    by (simp add: algebra_simps)
  then have "x = 0" using e1 e2 assms by simp
  moreover have "(a * d - b * c) * y = a * (c * x + d * y) - c * (a * x + b * y)"
    by (simp add: algebra_simps)
  then have "y = 0" using e1 e2 assms by simp
  ultimately show "v = replicate (length [[a, b], [c, d]]) 0" using v by (simp add: numeral_2_eq_2)
qed

lemma cross_correlation_example:
  "power_function_correlation 1 (10 / 39) 2 (10 / 39) = 32 / 55 * (1 / 2) powr (3 / 5)"
  "power_function_correlation 2 (10 / 39) 1 (10 / 39) = 32 / 55 * 2 powr (- (3 / 5))"
  "power_function_correlation 2 (10 / 39) 2 (10 / 39) = 32 / 55"
  by (simp_all add: power_function_correlation_def std_to_exp0_example Let_def)

lemma example_matrix:
  "correlation_matrix [1, 2] [10 / 39, 10 / 39] [1, 2] [10 / 39, 10 / 39]
     = [[64 / 55, 32 / 55 * (1 / 2) powr (3 / 5)], [32 / 55 * 2 powr (- (3 / 5)), 32 / 55]]"
  by (simp add: correlation_matrix_def self_correlation_example cross_correlation_example)

lemma example_rhs:
  "correlation_matrix [1, 2] [10 / 39, 10 / 39] [2] [10 / 39]
     = [[32 / 55 * (1 / 2) powr (3 / 5)], [32 / 55]]"
  by (simp add: correlation_matrix_def cross_correlation_example)

lemma example_det:
  "64 / 55 * (32 / 55) - 32 / 55 * (1 / 2) powr (3 / 5) * (32 / 55 * 2 powr (- (3 / 5))) \<noteq> (0::real)"
proof -
  define P :: real where "P = (1 / 2) powr (3 / 5)"
  define Q :: real where "Q = 2 powr (- (3 / 5))"
  have "(1 / 2 :: real) powr (3 / 5) < 1 powr (3 / 5)" by (rule powr_less_mono2) simp_all
  then have p: "P < 1" by (simp add: P_def)
  have "(2 :: real) powr (- (3 / 5)) < 1 powr (- (3 / 5))" by (rule powr_less_mono2_neg) simp_all
  then have q: "Q < 1" by (simp add: Q_def)
  have p0: "0 < P" and q0: "0 < Q" by (simp_all add: P_def Q_def)
  have "P * Q < 1 * 1" by (rule mult_strict_mono) (use p q p0 q0 in simp_all)
  then have "0 < 2 - P * Q" by simp
  then have "0 < 32 / 55 * (32 / 55) * (2 - P * Q)" by simp
  moreover have "64 / 55 * (32 / 55) - 32 / 55 * P * (32 / 55 * Q) = 32 / 55 * (32 / 55) * (2 - P * Q)"
    by (simp add: algebra_simps)
  ultimately have "64 / 55 * (32 / 55) - 32 / 55 * P * (32 / 55 * Q) \<noteq> 0" by simp
  then show ?thesis unfolding P_def Q_def .
qed

subsection \<open>The columns sum to one\<close>

text \<open>
  Claim C1. Let the sources and the targets be lists of (offset, std) profiles. When the
  linear solve succeeds with a raw solution \<open>X\<close> that has one row per source and one
  column per target, and no column of \<open>X\<close> sums to zero, then
  \<open>solve_posthoc_coefficients\<close> returns a matrix of the same shape each of whose columns
  sums to one.
\<close>

theorem solve_posthoc_columns_sum_to_one:
  assumes "length in_ofs = length in_std" and "length out_ofs = length out_std"
    and "linalg_solve (correlation_matrix in_ofs in_std in_ofs in_std)
           (correlation_matrix in_ofs in_std out_ofs out_std) = Inr X"
    and "has_shape (length in_ofs) (length out_ofs) X"
    and "\<forall>j<length out_ofs. col_sum X j \<noteq> 0"
  shows "\<exists>C. solve_posthoc_coefficients linalg_solve in_ofs in_std out_ofs out_std = Inr C
           \<and> has_shape (length in_ofs) (length out_ofs) C
           \<and> (\<forall>j<length out_ofs. col_sum C j = 1)"
proof -
  let ?C = "normalize_columns (length out_ofs) X"
  have "solve_posthoc_coefficients linalg_solve in_ofs in_std out_ofs out_std = Inr ?C"
    using assms(1-3) by (simp add: solve_posthoc_coefficients_def broadcast_same Let_def)
  moreover have "has_shape (length in_ofs) (length out_ofs) ?C"
    by (rule normalize_columns_shape[OF assms(4)])
  moreover have "\<forall>j<length out_ofs. col_sum ?C j = 1"
    using col_sum_normalize[OF assms(4)] assms(5) by simp
  ultimately show ?thesis by blast
qed

theorem solve_posthoc_columns_sum_to_one_witness:
  "\<exists>C. solve_posthoc_coefficients (\<lambda>A B. Inr [[0], [1]]) [1, 2] [10 / 39, 10 / 39] [2] [10 / 39] = Inr C
       \<and> has_shape 2 1 C \<and> col_sum C 0 = 1"
proof -
  have "\<exists>C. solve_posthoc_coefficients (\<lambda>A B. Inr [[0], [1]]) [1, 2] [10 / 39, 10 / 39] [2] [10 / 39] = Inr C
       \<and> has_shape (length [1, 2 :: real]) (length [2 :: real]) C
       \<and> (\<forall>j<length [2 :: real]. col_sum C j = 1)"
    by (rule solve_posthoc_columns_sum_to_one[where X = "[[0], [1]]"])
      (simp_all add: has_shape_def col_sum_def)
  then show ?thesis by (auto simp: numeral_2_eq_2)
qed

subsection \<open>A target that is one of the sources\<close>

text \<open>
  Claim C4. Let the one target profile be the \<open>k\<close>-th source profile, let the matrix
  \<open>A\<close> of the sources be nonsingular, and let the linear solve return a solution \<open>X\<close> of
  \<open>A X = B\<close>. Then \<open>solve_posthoc_coefficients\<close> returns the coefficient one for
  source \<open>k\<close> and zero for every other source.
\<close>

theorem solve_posthoc_exact_match:
  assumes "length in_ofs = length in_std" and "k < length in_ofs"
    and "linalg_solve (correlation_matrix in_ofs in_std in_ofs in_std)
           (correlation_matrix in_ofs in_std [in_ofs ! k] [in_std ! k]) = Inr X"
    and "solves (correlation_matrix in_ofs in_std in_ofs in_std)
           (correlation_matrix in_ofs in_std [in_ofs ! k] [in_std ! k]) 1 X"
    and "nonsingular (correlation_matrix in_ofs in_std in_ofs in_std)"
  shows "solve_posthoc_coefficients linalg_solve in_ofs in_std [in_ofs ! k] [in_std ! k]
           = Inr (map (\<lambda>x. [x]) ((replicate (length in_ofs) 0)[k := 1]))"
proof -
  have X: "X = map (\<lambda>x. [x]) ((replicate (length in_ofs) 0)[k := 1])"
    by (rule exact_match_solution[OF assms(1,2,4,5)])
  have "solve_posthoc_coefficients linalg_solve in_ofs in_std [in_ofs ! k] [in_std ! k]
          = Inr (normalize_columns 1 X)"
    using assms(1,3) by (simp add: solve_posthoc_coefficients_def broadcast_same Let_def)
  then show ?thesis unfolding X using unit_normalized[OF assms(2)] by simp
qed

theorem solve_posthoc_exact_match_witness:
  "solve_posthoc_coefficients
     (\<lambda>A B. if A ! 0 ! 0 * A ! 1 ! 1 - A ! 0 ! 1 * A ! 1 ! 0 = 0 then Inl LinAlgError
            else Inr [[(B ! 0 ! 0 * A ! 1 ! 1 - A ! 0 ! 1 * B ! 1 ! 0)
                         / (A ! 0 ! 0 * A ! 1 ! 1 - A ! 0 ! 1 * A ! 1 ! 0)],
                      [(A ! 0 ! 0 * B ! 1 ! 0 - B ! 0 ! 0 * A ! 1 ! 0)
                         / (A ! 0 ! 0 * A ! 1 ! 1 - A ! 0 ! 1 * A ! 1 ! 0)]])
     [1, 2] [10 / 39, 10 / 39] [2] [10 / 39]
     = Inr [[0], [1]]"
proof -
  let ?solve = "\<lambda>(A :: real list list) (B :: real list list).
            if A ! 0 ! 0 * A ! 1 ! 1 - A ! 0 ! 1 * A ! 1 ! 0 = 0 then Inl LinAlgError
            else Inr [[(B ! 0 ! 0 * A ! 1 ! 1 - A ! 0 ! 1 * B ! 1 ! 0)
                         / (A ! 0 ! 0 * A ! 1 ! 1 - A ! 0 ! 1 * A ! 1 ! 0)],
                      [(A ! 0 ! 0 * B ! 1 ! 0 - B ! 0 ! 0 * A ! 1 ! 0)
                         / (A ! 0 ! 0 * A ! 1 ! 1 - A ! 0 ! 1 * A ! 1 ! 0)]]"
  let ?ofs = "[1, 2 :: real]"
  let ?std = "[10 / 39, 10 / 39 :: real]"
  note det = example_det
  have B: "correlation_matrix ?ofs ?std [?ofs ! 1] [?std ! 1]
             = [[32 / 55 * (1 / 2) powr (3 / 5)], [32 / 55]]"
    using example_rhs by simp
  have "solve_posthoc_coefficients ?solve ?ofs ?std [?ofs ! 1] [?std ! 1]
          = Inr (map (\<lambda>x. [x]) ((replicate (length ?ofs) 0)[1 := 1]))"
  proof (rule solve_posthoc_exact_match[where X = "[[0], [1]]"])
    show "length ?ofs = length ?std" by simp
    show "1 < length ?ofs" by simp
    show "?solve (correlation_matrix ?ofs ?std ?ofs ?std)
            (correlation_matrix ?ofs ?std [?ofs ! 1] [?std ! 1]) = Inr [[0], [1]]"
      unfolding example_matrix B using det by simp
    show "solves (correlation_matrix ?ofs ?std ?ofs ?std)
            (correlation_matrix ?ofs ?std [?ofs ! 1] [?std ! 1]) 1 [[0], [1]]"
      unfolding example_matrix B
      by (simp add: solves_def has_shape_def mat_vec_def dot_def column_def)
    show "nonsingular (correlation_matrix ?ofs ?std ?ofs ?std)"
      unfolding example_matrix by (rule nonsingular_2x2[OF det])
  qed
  then show ?thesis by (simp add: numeral_2_eq_2)
qed

section \<open>Properties of the checkpoint discovery\<close>

text \<open>
  The entry of a directory is listed under the directory's path, and line 174 joins
  the directory to it once more. For an absolute directory the join gives the entry's
  own path; for a relative one it gives the directory twice, then the name.
\<close>

lemma checkpoint_records_eq:
  "checkpoint_records pl name =
     (if 2 \<le> length (cfg_stds pl)
      then Inr [(global_step pl, cfg_stds pl ! 0, name), (global_step pl, cfg_stds pl ! 1, name)]
      else Inl IndexError)"
  by (auto simp: checkpoint_records_def item_def)

lemma entry_name [simp]: "path_name (path_join dir (name_path name)) = name"
  by (simp add: path_name_def path_join_def name_path_def)

lemma opened_absolute:
  "is_abs dir \<Longrightarrow> path_join dir (path_join dir (name_path name)) = path_join dir (name_path name)"
  by (simp add: path_join_def name_path_def)

lemma opened_relative:
  "\<not> is_abs dir \<Longrightarrow>
   path_join dir (path_join dir (name_path name)) = Path False (parts dir @ parts dir @ [name])"
  by (simp add: path_join_def name_path_def)

lemma discover_eq:
  assumes "\<forall>name\<in>set names. epoch_match name \<longrightarrow>
             (\<exists>pl. store (path_join dir (path_join dir (name_path name))) = Some pl)"
  shows "discover store dir (iterdir dir names) params =
     (if \<forall>name\<in>set names. epoch_match name \<longrightarrow>
           2 \<le> length (cfg_stds (the (store (path_join dir (path_join dir (name_path name))))))
      then Inr (params @ concat (map (\<lambda>name.
             [(global_step (the (store (path_join dir (path_join dir (name_path name))))),
               cfg_stds (the (store (path_join dir (path_join dir (name_path name))))) ! 0, name),
              (global_step (the (store (path_join dir (path_join dir (name_path name))))),
               cfg_stds (the (store (path_join dir (path_join dir (name_path name))))) ! 1, name)])
             (filter epoch_match names)))
      else Inl IndexError)"
  using assms
proof (induction names arbitrary: params)
  case Nil
  then show ?case by (simp add: iterdir_def)
next
  case (Cons name names)
  have rest: "\<forall>name\<in>set names. epoch_match name \<longrightarrow>
             (\<exists>pl. store (path_join dir (path_join dir (name_path name))) = Some pl)"
    using Cons.prems by simp
  note IH = Cons.IH[OF rest, unfolded iterdir_def]
  show ?case
  proof (cases "epoch_match name")
    case False
    then show ?thesis by (simp add: IH iterdir_def)
  next
    case True
    with Cons.prems obtain pl where
      pl: "store (path_join dir (path_join dir (name_path name))) = Some pl" by auto
    show ?thesis
    proof (cases "2 \<le> length (cfg_stds pl)")
      case True
      then show ?thesis using \<open>epoch_match name\<close> pl
        by (simp add: checkpoint_records_eq IH iterdir_def)
    next
      case False
      then show ?thesis using \<open>epoch_match name\<close> pl
        by (auto simp: checkpoint_records_eq iterdir_def)
    qed
  qed
qed

lemma main_params_absolute:
  assumes "is_abs workspace_dir"
    and "store (path_join (path_join workspace_dir (name_path ''checkpoints''))
                  (name_path ''latest.ckpt'')) = Some latest"
    and "\<forall>name\<in>set names. epoch_match name \<longrightarrow>
           (\<exists>pl. store (path_join (path_join workspace_dir (name_path ''checkpoints''))
                          (name_path name)) = Some pl)"
  shows "main_params store workspace_dir names =
     (if (\<forall>name\<in>set names. epoch_match name \<longrightarrow>
            2 \<le> length (cfg_stds (the (store
                   (path_join (path_join workspace_dir (name_path ''checkpoints''))
                      (name_path name))))))
         \<and> 2 \<le> length (cfg_stds latest)
      then Inr (concat (map (\<lambda>name.
                  [(global_step (the (store
                      (path_join (path_join workspace_dir (name_path ''checkpoints''))
                         (name_path name)))),
                    cfg_stds (the (store
                      (path_join (path_join workspace_dir (name_path ''checkpoints''))
                         (name_path name)))) ! 0, name),
                   (global_step (the (store
                      (path_join (path_join workspace_dir (name_path ''checkpoints''))
                         (name_path name)))),
                    cfg_stds (the (store
                      (path_join (path_join workspace_dir (name_path ''checkpoints''))
                         (name_path name)))) ! 1, name)])
                  (filter epoch_match names))
                @ [(global_step latest, cfg_stds latest ! 0, ''latest.ckpt''),
                   (global_step latest, cfg_stds latest ! 1, ''latest.ckpt'')])
      else Inl IndexError)"
proof -
  let ?dir = "path_join workspace_dir (name_path ''checkpoints'')"
  have abs: "is_abs ?dir" using assms(1) by (simp add: path_join_def name_path_def)
  have op: "path_join ?dir (path_join ?dir (name_path name)) = path_join ?dir (name_path name)"
    for name by (rule opened_absolute[OF abs])
  have loads: "\<forall>name\<in>set names. epoch_match name \<longrightarrow>
             (\<exists>pl. store (path_join ?dir (path_join ?dir (name_path name))) = Some pl)"
    using assms(3) unfolding op .
  show ?thesis
    using assms(2)
    by (simp add: main_params_def Let_def discover_eq[OF loads] op checkpoint_records_eq)
qed

lemma epoch_match_not_latest: "epoch_match name \<Longrightarrow> name \<noteq> ''latest.ckpt''"
  by (auto simp: epoch_match_def)

lemma discover_files:
  "discover store dir fs params = Inr ps \<Longrightarrow> \<forall>r\<in>set params. epoch_match (snd (snd r)) \<Longrightarrow>
   \<forall>r\<in>set ps. epoch_match (snd (snd r))"
proof (induction fs arbitrary: params)
  case Nil
  then show ?case by simp
next
  case (Cons f fs)
  show ?case
  proof (cases "epoch_match (path_name f)")
    case False
    then show ?thesis using Cons by simp
  next
    case True
    from Cons.prems(1) True obtain pl rs where pl: "store (path_join dir f) = Some pl"
      and rs: "checkpoint_records pl (path_name f) = Inr rs"
      and d: "discover store dir fs (params @ rs) = Inr ps"
      by (auto split: option.splits sum.splits)
    have "\<forall>r\<in>set rs. epoch_match (snd (snd r))"
      using rs True by (auto simp: checkpoint_records_eq split: if_splits)
    then have "\<forall>r\<in>set (params @ rs). epoch_match (snd (snd r))" using Cons.prems(2) by auto
    from Cons.IH[OF d this] show ?thesis .
  qed
qed

lemma epoch_match_examples:
  "epoch_match ''epoch_1.ckpt''" "\<not> epoch_match ''notes.txt''" "\<not> epoch_match ''latest.ckpt''"
  by (simp_all add: epoch_match_def is_digit_def Let_def)

lemmas path_defs = path_join_def name_path_def path_name_def iterdir_def

text \<open>
  Claim C10. For an absolute workspace directory every matching file that loads
  contributes the two records of the first two entries of its own std list, and
  discovery fails with an index error when a matching file or \<open>latest.ckpt\<close> lists
  fewer than two stds (\<open>main_params_absolute\<close>). For a relative workspace directory
  the claim fails on the code: with \<open>ws/checkpoints/epoch_1.ckpt\<close> and
  \<open>ws/checkpoints/latest.ckpt\<close> in place, each listing two stds, the file that is
  opened for the entry \<open>epoch_1.ckpt\<close> is \<open>ws/checkpoints/ws/checkpoints/epoch_1.ckpt\<close>,
  and discovery stops there with \<open>FileNotFoundError\<close>: the matching file contributes no
  record.
\<close>

theorem discovery_relative_dir_fails:
  "main_params
     [Path False [''ws'', ''checkpoints'', ''latest.ckpt'']
        \<mapsto> \<lparr>cfg_stds = [1 / 20, 1 / 10], global_step = 300, ema_models = []\<rparr>,
      Path False [''ws'', ''checkpoints'', ''epoch_1.ckpt'']
        \<mapsto> \<lparr>cfg_stds = [1 / 20, 1 / 10], global_step = 100, ema_models = []\<rparr>]
     (Path False [''ws''])
     [''epoch_1.ckpt'', ''latest.ckpt'']
     = Inl FileNotFound"
  by (simp add: main_params_def Let_def path_defs epoch_match_examples)

text \<open>
  Claim C7, as the source has it. The list assembled at startup is the list of the
  records discovered in the directory, all from files matching the pattern, followed
  by two records of \<open>latest.ckpt\<close>, one for each of its first two stds: exactly two
  records of the list have the source file \<open>latest.ckpt\<close>.
\<close>

theorem latest_records_are_two:
  assumes "main_params store workspace_dir names = Inr params"
  shows "\<exists>discovered latest.
           store (path_join (path_join workspace_dir (name_path ''checkpoints''))
                    (name_path ''latest.ckpt'')) = Some latest
         \<and> discover store (path_join workspace_dir (name_path ''checkpoints''))
               (iterdir (path_join workspace_dir (name_path ''checkpoints'')) names) []
             = Inr discovered
         \<and> (\<forall>r\<in>set discovered. epoch_match (snd (snd r)))
         \<and> 2 \<le> length (cfg_stds latest)
         \<and> params = discovered @ [(global_step latest, cfg_stds latest ! 0, ''latest.ckpt''),
                                   (global_step latest, cfg_stds latest ! 1, ''latest.ckpt'')]
         \<and> length (filter (\<lambda>r. snd (snd r) = ''latest.ckpt'') params) = 2"
proof -
  let ?dir = "path_join workspace_dir (name_path ''checkpoints'')"
  from assms obtain latest discovered rs where
    l: "store (path_join ?dir (name_path ''latest.ckpt'')) = Some latest"
    and d: "discover store ?dir (iterdir ?dir names) [] = Inr discovered"
    and rs: "checkpoint_records latest ''latest.ckpt'' = Inr rs"
    and p: "params = discovered @ rs"
    by (auto simp: main_params_def Let_def split: option.splits sum.splits)
  have two: "2 \<le> length (cfg_stds latest)"
    and rs': "rs = [(global_step latest, cfg_stds latest ! 0, ''latest.ckpt''),
                   (global_step latest, cfg_stds latest ! 1, ''latest.ckpt'')]"
    using rs by (auto simp: checkpoint_records_eq split: if_splits)
  have files: "\<forall>r\<in>set discovered. epoch_match (snd (snd r))"
    using discover_files[OF d] by simp
  then have "filter (\<lambda>r. snd (snd r) = ''latest.ckpt'') discovered = []"
    using epoch_match_not_latest by (auto simp: filter_empty_conv)
  then have "length (filter (\<lambda>r. snd (snd r) = ''latest.ckpt'') params) = 2"
    unfolding p rs' by simp
  then show ?thesis using l d files two p rs' by blast
qed

theorem latest_records_are_two_witness:
  "main_params
     [Path True [''ws'', ''checkpoints'', ''latest.ckpt'']
        \<mapsto> \<lparr>cfg_stds = [1 / 20, 1 / 10], global_step = 300, ema_models = []\<rparr>,
      Path True [''ws'', ''checkpoints'', ''epoch_1.ckpt'']
        \<mapsto> \<lparr>cfg_stds = [1 / 20, 1 / 10, 3 / 20], global_step = 100, ema_models = []\<rparr>]
     (Path True [''ws''])
     [''epoch_1.ckpt'', ''notes.txt'', ''latest.ckpt'']
     = Inr [(100, 1 / 20, ''epoch_1.ckpt''), (100, 1 / 10, ''epoch_1.ckpt''),
            (300, 1 / 20, ''latest.ckpt''), (300, 1 / 10, ''latest.ckpt'')]
   \<and> length (filter (\<lambda>r. snd (snd r) = ''latest.ckpt'')
        [(100 :: int, 1 / 20 :: real, ''epoch_1.ckpt''), (100, 1 / 10, ''epoch_1.ckpt''),
         (300, 1 / 20, ''latest.ckpt''), (300, 1 / 10, ''latest.ckpt'')]) = 2"
proof -
  have m: "main_params
     [Path True [''ws'', ''checkpoints'', ''latest.ckpt'']
        \<mapsto> \<lparr>cfg_stds = [1 / 20, 1 / 10], global_step = 300, ema_models = []\<rparr>,
      Path True [''ws'', ''checkpoints'', ''epoch_1.ckpt'']
        \<mapsto> \<lparr>cfg_stds = [1 / 20, 1 / 10, 3 / 20], global_step = 100, ema_models = []\<rparr>]
     (Path True [''ws''])
     [''epoch_1.ckpt'', ''notes.txt'', ''latest.ckpt'']
     = Inr [(100, 1 / 20, ''epoch_1.ckpt''), (100, 1 / 10, ''epoch_1.ckpt''),
            (300, 1 / 20, ''latest.ckpt''), (300, 1 / 10, ''latest.ckpt'')]"
    by (simp add: main_params_def Let_def path_defs checkpoint_records_eq epoch_match_examples)
  from latest_records_are_two[OF m] m show ?thesis by blast
qed

text \<open>
  The claim as the specification states it fails: with nothing but \<open>latest.ckpt\<close> in
  the directory the list has two records of that file, not one.
\<close>

theorem latest_record_not_single:
  "main_params
     [Path False [''ws'', ''checkpoints'', ''latest.ckpt'']
        \<mapsto> \<lparr>cfg_stds = [1 / 20, 1 / 10], global_step = 300, ema_models = []\<rparr>]
     (Path False [''ws''])
     [''latest.ckpt'']
     = Inr [(300, 1 / 20, ''latest.ckpt''), (300, 1 / 10, ''latest.ckpt'')]
   \<and> length (filter (\<lambda>r. snd (snd r) = ''latest.ckpt'')
        [(300 :: int, 1 / 20 :: real, ''latest.ckpt''), (300, 1 / 10, ''latest.ckpt'')]) \<noteq> 1"
  by (simp add: main_params_def Let_def path_defs checkpoint_records_eq epoch_match_examples)

section \<open>Properties of the reconstruction\<close>

lemma accumulate_ok:
  assumes "map length q = map length p"
  shows "accumulate p q c = Inr (map2 (\<lambda>pt qt. map2 (\<lambda>x y. x + y * c) pt qt) p q)"
  using assms
proof (induction p q c rule: accumulate.induct)
  case (1 ema c)
  then show ?case by simp
next
  case (2 p ps c)
  then show ?case by simp
next
  case (3 p ps q qs c)
  then show ?case by simp
qed

lemma accumulate_entries:
  assumes "map length q = map length p"
  shows "\<exists>out. accumulate p q c = Inr out \<and> map length out = map length p
           \<and> (\<forall>k<length p. \<forall>e<length (p ! k). out ! k ! e = p ! k ! e + q ! k ! e * c)"
proof -
  let ?out = "map2 (\<lambda>pt qt. map2 (\<lambda>x y. x + y * c) pt qt) p q"
  have len: "length q = length p" using assms by (metis length_map)
  have lk: "length (q ! k) = length (p ! k)" if "k < length p" for k
    using assms that len by (metis nth_map)
  have "map length ?out = map length p"
    by (rule nth_equalityI) (use len lk in auto)
  moreover have "\<forall>k<length p. \<forall>e<length (p ! k). ?out ! k ! e = p ! k ! e + q ! k ! e * c"
    using len lk by auto
  ultimately show ?thesis using accumulate_ok[OF assms] by blast
qed

lemma recon_loop_sum:
  assumes "length coef = length records" "length vs = length records"
    and "\<forall>i<length records. load_variant store dir (records ! i) = Inr (vs ! i)
           \<and> map length (vs ! i) = map length acc \<and> length (coef ! i) = 1"
  shows "\<exists>out. recon_loop store dir records coef acc = Inr out \<and> map length out = map length acc
           \<and> (\<forall>k<length acc. \<forall>e<length (acc ! k).
                 out ! k ! e = acc ! k ! e + (\<Sum>i<length records. coef ! i ! 0 * vs ! i ! k ! e))"
  using assms
proof (induction records arbitrary: coef vs acc)
  case Nil
  then show ?case by simp
next
  case (Cons r rs)
  from Cons.prems(1) obtain c cs where coef: "coef = c # cs" by (cases coef) auto
  from Cons.prems(2) obtain v vs' where vs: "vs = v # vs'" by (cases vs) auto
  from Cons.prems(3)[rule_format, of 0] coef vs
  have load: "load_variant store dir r = Inr v" and shape: "map length v = map length acc"
    and c1: "length c = 1" by simp_all
  from c1 obtain c0 where c: "c = [c0]" by (cases c) auto
  from accumulate_entries[OF shape, of c0] obtain acc' where
    acc: "accumulate acc v c0 = Inr acc'" and sh': "map length acc' = map length acc"
    and ent: "\<forall>k<length acc. \<forall>e<length (acc ! k). acc' ! k ! e = acc ! k ! e + v ! k ! e * c0"
    by blast
  have len': "length acc' = length acc" using sh' by (metis length_map)
  have lk': "length (acc' ! k) = length (acc ! k)" if "k < length acc" for k
    using sh' that len' by (metis nth_map)
  have prem: "\<forall>i<length rs. load_variant store dir (rs ! i) = Inr (vs' ! i)
           \<and> map length (vs' ! i) = map length acc' \<and> length (cs ! i) = 1"
  proof (intro allI impI)
    fix i assume "i < length rs"
    then have "Suc i < length (r # rs)" by simp
    from Cons.prems(3)[rule_format, OF this] coef vs sh'
    show "load_variant store dir (rs ! i) = Inr (vs' ! i)
           \<and> map length (vs' ! i) = map length acc' \<and> length (cs ! i) = 1" by simp
  qed
  have "length cs = length rs" "length vs' = length rs" using Cons.prems(1,2) coef vs by simp_all
  from Cons.IH[OF this prem] obtain out where
    out: "recon_loop store dir rs cs acc' = Inr out" and sho: "map length out = map length acc'"
    and ento: "\<forall>k<length acc'. \<forall>e<length (acc' ! k).
                 out ! k ! e = acc' ! k ! e + (\<Sum>i<length rs. cs ! i ! 0 * vs' ! i ! k ! e)"
    by blast
  have run: "recon_loop store dir (r # rs) coef acc = Inr out"
    using load acc out coef c by simp
  have "out ! k ! e = acc ! k ! e + (\<Sum>i<length (r # rs). coef ! i ! 0 * vs ! i ! k ! e)"
    if k: "k < length acc" and e: "e < length (acc ! k)" for k e
  proof -
    have "out ! k ! e = acc' ! k ! e + (\<Sum>i<length rs. cs ! i ! 0 * vs' ! i ! k ! e)"
      using ento k e len' lk'[OF k] by simp
    also have "acc' ! k ! e = acc ! k ! e + v ! k ! e * c0" using ent k e by blast
    finally show ?thesis
      unfolding coef vs c
      by (simp add: sum.lessThan_Suc_shift algebra_simps del: sum.lessThan_Suc)
  qed
  then show ?case using run sho sh' by auto
qed

lemma sorted_params_example:
  "sorted_params [(100, 1 / 10, ''epoch_1.ckpt''), (100, 1 / 20, ''epoch_1.ckpt'')]
     = [(100, 1 / 20, ''epoch_1.ckpt''), (100, 1 / 10, ''epoch_1.ckpt'')]"
  by (simp add: sorted_params_def less_eq_prod_def)

lemma coef_example:
  "solve_posthoc_coefficients (\<lambda>A B. Inr [[1], [3]]) [100, 100] [1 / 20, 1 / 10] [300] [2 / 25]
     = Inr [[1 / 4], [3 / 4]]"
  by (simp add: solve_posthoc_coefficients_def broadcast_arrays_def normalize_columns_def
      col_sums_def col_sum_def Let_def)

text \<open>
  Claim C5. Let \<open>coef\<close> be the coefficients solved for the sorted records, one row of
  one coefficient per record, and let every record's checkpoint load and hold the
  variant \<open>vs ! i\<close> for the record's std, with the parameter shapes of the live model.
  Then every element of every parameter tensor of the reconstructed model is the sum
  over the records of the coefficient times that element of the record's variant:
  the buffer starts from zero, so nothing of the copied model remains.
\<close>

theorem reconstruct_weighted_sum:
  assumes "solve_posthoc_coefficients linalg_solve
             (map (\<lambda>(step, std_in, file). real_of_int step) records)
             (map (\<lambda>(step, std_in, file). std_in) records)
             [real_of_int latest] [std] = Inr coef"
    and "has_shape (length records) 1 coef"
    and "live \<noteq> []"
    and "length vs = length records"
    and "\<forall>i<length records. load_variant store dir (records ! i) = Inr (vs ! i)
           \<and> map length (vs ! i) = map length (live ! 0)"
  shows "\<exists>out. reconstruct linalg_solve store dir records latest live std = Inr out
           \<and> map length out = map length (live ! 0)
           \<and> (\<forall>k<length (live ! 0). \<forall>e<length (live ! 0 ! k).
                 out ! k ! e = (\<Sum>i<length records. coef ! i ! 0 * vs ! i ! k ! e))"
proof -
  let ?z = "zero_model (live ! 0)"
  have zshape: "map length ?z = map length (live ! 0)" by (simp add: zero_model_def)
  have zlen: "length ?z = length (live ! 0)" by (simp add: zero_model_def)
  have zent: "?z ! k ! e = 0" "length (?z ! k) = length (live ! 0 ! k)"
    if "k < length (live ! 0)" "e < length (live ! 0 ! k)" for k e
    using that by (simp_all add: zero_model_def)
  have lc: "length coef = length records" and rows: "\<forall>i<length records. length (coef ! i) = 1"
    using assms(2) by (auto simp: has_shape_def list_all_length)
  have prem: "\<forall>i<length records. load_variant store dir (records ! i) = Inr (vs ! i)
           \<and> map length (vs ! i) = map length ?z \<and> length (coef ! i) = 1"
    using assms(5) rows zshape by simp
  from recon_loop_sum[OF lc assms(4) prem] obtain out where
    out: "recon_loop store dir records coef ?z = Inr out" and sh: "map length out = map length ?z"
    and ent: "\<forall>k<length ?z. \<forall>e<length (?z ! k).
                 out ! k ! e = ?z ! k ! e + (\<Sum>i<length records. coef ! i ! 0 * vs ! i ! k ! e)"
    by blast
  have "reconstruct linalg_solve store dir records latest live std = Inr out"
    using assms(1,3) out by (simp add: reconstruct_def item_def Let_def)
  moreover have "map length out = map length (live ! 0)" using sh zshape by simp
  moreover have "\<forall>k<length (live ! 0). \<forall>e<length (live ! 0 ! k).
                 out ! k ! e = (\<Sum>i<length records. coef ! i ! 0 * vs ! i ! k ! e)"
    using ent zent zlen by simp
  ultimately show ?thesis by blast
qed

theorem reconstruct_weighted_sum_witness:
  "\<exists>out. reconstruct (\<lambda>A B. Inr [[1], [3]])
            [Path False [''ws'', ''checkpoints'', ''epoch_1.ckpt'']
               \<mapsto> \<lparr>cfg_stds = [1 / 20, 1 / 10], global_step = 100,
                         ema_models = [[[4, 8]], [[8, 0]]]\<rparr>]
            (Path False [''ws'', ''checkpoints''])
            (sorted_params [(100, 1 / 10, ''epoch_1.ckpt''), (100, 1 / 20, ''epoch_1.ckpt'')])
            300 [[[5, 5]], [[6, 6]]] (2 / 25) = Inr out
         \<and> map length out = [2] \<and> out ! 0 ! 0 = 7 \<and> out ! 0 ! 1 = 2"
proof -
  let ?store = "[Path False [''ws'', ''checkpoints'', ''epoch_1.ckpt'']
               \<mapsto> \<lparr>cfg_stds = [1 / 20, 1 / 10], global_step = 100,
                         ema_models = [[[4, 8]], [[8, 0 :: real]]]\<rparr>]"
  let ?dir = "Path False [''ws'', ''checkpoints'']"
  let ?records = "[(100 :: int, 1 / 20 :: real, ''epoch_1.ckpt''), (100, 1 / 10, ''epoch_1.ckpt'')]"
  let ?vs = "[[[4, 8]], [[8, 0 :: real]]]"
  let ?live = "[[[5, 5]], [[6, 6 :: real]]]"
  have two: "i < 2 \<longleftrightarrow> i = 0 \<or> i = Suc 0" for i :: nat by auto
  have "\<exists>out. reconstruct (\<lambda>A B. Inr [[1], [3]]) ?store ?dir ?records 300 ?live (2 / 25) = Inr out
           \<and> map length out = map length (?live ! 0)
           \<and> (\<forall>k<length (?live ! 0). \<forall>e<length (?live ! 0 ! k).
                 out ! k ! e = (\<Sum>i<length ?records. [[1 / 4], [3 / 4]] ! i ! 0 * ?vs ! i ! k ! e))"
  proof (rule reconstruct_weighted_sum)
    show "solve_posthoc_coefficients (\<lambda>A B. Inr [[1], [3]])
             (map (\<lambda>(step, std_in, file). real_of_int step) ?records)
             (map (\<lambda>(step, std_in, file). std_in) ?records)
             [real_of_int 300] [2 / 25] = Inr [[1 / 4], [3 / 4]]"
      using coef_example by simp
    show "has_shape (length ?records) 1 [[1 / 4], [3 / 4]]" by (simp add: has_shape_def)
    show "?live \<noteq> []" by simp
    show "length ?vs = length ?records" by simp
    show "\<forall>i<length ?records. load_variant ?store ?dir (?records ! i) = Inr (?vs ! i)
           \<and> map length (?vs ! i) = map length (?live ! 0)"
      by (simp add: less_Suc_eq load_variant_def item_def all_conj_distrib path_join_def name_path_def)
  qed
  then obtain out where all:
    "reconstruct (\<lambda>A B. Inr [[1], [3]]) ?store ?dir ?records 300 ?live (2 / 25) = Inr out
       \<and> map length out = map length (?live ! 0)
       \<and> (\<forall>k<length (?live ! 0). \<forall>e<length (?live ! 0 ! k).
             out ! k ! e = (\<Sum>i<length ?records. [[1 / 4], [3 / 4]] ! i ! 0 * ?vs ! i ! k ! e))"
    by (rule exE)
  note r = all[THEN conjunct1]
  note sh0 = all[THEN conjunct2, THEN conjunct1]
  note ent = all[THEN conjunct2, THEN conjunct2]
  have sh: "map length out = [2]" using sh0 by simp
  have e0: "out ! 0 ! 0 = 7"
    using ent[rule_format, of 0 0] by (simp add: numeral_2_eq_2)
  have e1: "out ! 0 ! 1 = 2"
    using ent[rule_format, of 0 1] by (simp add: numeral_2_eq_2)
  show ?thesis
    unfolding sorted_params_example
    by (rule exI[of _ out]) (simp only: r sh e0 e1 simp_thms)
qed

end
